theory Spec2Isabelle
  imports Complex_Main
begin

section \<open>Python values and errors\<close>

text \<open>
  Python strings and byte strings are both modelled as \<open>string\<close> (a list of 8-bit
  characters): a \<open>str\<close> stands for its UTF-8 bytes, so \<open>s.encode()\<close> is the identity.
  Exceptions are values of \<open>py_error\<close>; a function that can raise returns
  \<open>py_error + 'a\<close> with \<open>Inl\<close> for the exception.
\<close>

type_synonym bytes = string

datatype py_error =
  IndexError | TypeError | ZeroDivisionError | OverflowError | Base64Error | RuntimeError

text \<open>
  Subscription \<open>xs[i]\<close> of a Python list: \<open>i\<close> from \<open>0\<close> to \<open>len(xs) - 1\<close> reads
  from the front, \<open>i\<close> from \<open>-len(xs)\<close> to \<open>-1\<close> reads from the back, and any other
  \<open>i\<close> raises \<open>IndexError\<close>.
\<close>

definition py_index :: "'a list \<Rightarrow> int \<Rightarrow> py_error + 'a" where
  "py_index xs i =
     (if 0 \<le> i \<and> i < int (length xs) then Inr (xs ! nat i)
      else if i < 0 \<and> - int (length xs) \<le> i then Inr (xs ! nat (int (length xs) + i))
      else Inl IndexError)"

section \<open>crypto/merkle.py\<close>

text \<open>
  \<open>hashlib.sha256(data).hexdigest()\<close> is a library function; it is a parameter \<open>sha\<close>
  of every definition below, and so is the canonical JSON encoder
  \<open>json.dumps(item, sort_keys=True, separators=(",", ":"), default=str).encode("utf-8")\<close>.
\<close>

type_synonym sha256 = "bytes \<Rightarrow> string"

definition hash_leaf :: "sha256 \<Rightarrow> ('item \<Rightarrow> bytes) \<Rightarrow> 'item \<Rightarrow> string" where
  "hash_leaf sha canonical item = sha (CHR 0x00 # canonical item)"

definition hash_pair :: "sha256 \<Rightarrow> string \<Rightarrow> string \<Rightarrow> string" where
  "hash_pair sha left right = sha (CHR 0x01 # left @ right)"

text \<open>\<open>current + [current[-1]]\<close> when the length is odd (an odd length is not empty).\<close>

definition pad_level :: "string list \<Rightarrow> string list" where
  "pad_level level = (if length level mod 2 \<noteq> 0 then level @ [last level] else level)"

text \<open>
  \<open>[_hash_pair(current[i], current[i + 1]) for i in range(0, len(current), 2)]\<close>:
  \<open>range(0, n, 2)\<close> has \<open>(n + 1) div 2\<close> elements \<open>i = 2 * k\<close>.
\<close>

definition pair_level :: "sha256 \<Rightarrow> string list \<Rightarrow> string list" where
  "pair_level sha current =
     map (\<lambda>k. hash_pair sha (current ! (2 * k)) (current ! (2 * k + 1)))
       [0..<(length current + 1) div 2]"

lemma length_pair_level [simp]:
  "length (pair_level sha current) = (length current + 1) div 2"
  by (simp add: pair_level_def)

lemma length_pad_level:
  "length (pad_level level) = (if odd (length level) then Suc (length level) else length level)"
  by (simp add: pad_level_def odd_iff_mod_2_eq_one)

lemma length_parents_less:
  "1 < length level \<Longrightarrow> length (pair_level sha (pad_level level)) < length level"
  by (auto simp: length_pad_level elim!: oddE)

text \<open>The \<open>while len(levels[-1]) > 1\<close> loop of \<open>_build_tree\<close>.\<close>

function build_levels :: "sha256 \<Rightarrow> string list list \<Rightarrow> string list list" where
  "build_levels sha levels =
     (if 1 < length (last levels)
      then build_levels sha (levels @ [pair_level sha (pad_level (last levels))])
      else levels)"
  by pat_completeness auto
termination
  by (relation "measure (\<lambda>(sha, levels). length (last levels))")
     (auto simp: length_parents_less simp del: length_pair_level)

declare build_levels.simps [simp del]

definition build_tree :: "sha256 \<Rightarrow> string list \<Rightarrow> string list list" where
  "build_tree sha leaves = (if leaves = [] then [] else build_levels sha [leaves])"

record merkle_tree =
  leaves :: "string list"

definition MerkleTree :: merkle_tree where
  "MerkleTree = \<lparr>leaves = []\<rparr>"

definition load_leaves :: "merkle_tree \<Rightarrow> string list \<Rightarrow> merkle_tree" where
  "load_leaves t leaf_hashes = t\<lparr>leaves := leaf_hashes\<rparr>"

text \<open>\<open>append\<close> (here \<open>append_item\<close>) returns the leaf hash and the updated tree.\<close>

definition append_item :: "sha256 \<Rightarrow> ('item \<Rightarrow> bytes) \<Rightarrow> merkle_tree \<Rightarrow> 'item \<Rightarrow> string \<times> merkle_tree" where
  "append_item sha canonical t item =
     (let leaf_hash = hash_leaf sha canonical item
      in (leaf_hash, t\<lparr>leaves := leaves t @ [leaf_hash]\<rparr>))"

definition append_leaf_hash :: "merkle_tree \<Rightarrow> string \<Rightarrow> merkle_tree" where
  "append_leaf_hash t leaf_hash = t\<lparr>leaves := leaves t @ [leaf_hash]\<rparr>"

definition count :: "merkle_tree \<Rightarrow> nat" where
  "count t = length (leaves t)"

text \<open>The property \<open>root\<close> (here \<open>root_of\<close>): \<open>None\<close> for the empty tree, else \<open>levels[-1][0]\<close>.\<close>

definition root_of :: "sha256 \<Rightarrow> merkle_tree \<Rightarrow> py_error + string option" where
  "root_of sha t =
     (if leaves t = [] then Inr None
      else let levels = build_tree sha (leaves t)
           in case py_index levels (- 1) of
                Inl e \<Rightarrow> Inl e
              | Inr top_level \<Rightarrow> (case py_index top_level 0 of Inl e \<Rightarrow> Inl e | Inr r \<Rightarrow> Inr (Some r)))"

record proof_step =
  hash :: string
  position :: string

record merkle_proof =
  leaf_hash :: string
  index :: int
  proof_hashes :: "proof_step list"
  root_hash :: string

text \<open>The \<open>for level in levels[:-1]\<close> loop of \<open>get_proof\<close>, with the running \<open>idx\<close>.\<close>

fun proof_loop :: "string list list \<Rightarrow> int \<Rightarrow> py_error + proof_step list" where
  "proof_loop [] idx = Inr []"
| "proof_loop (level # rest) idx =
     (let padded = level @ (if length level mod 2 \<noteq> 0 then [last level] else []);
          sibling_idx = (if idx mod 2 = 0 then idx + 1 else idx - 1);
          pos = (if idx mod 2 = 0 then ''right'' else ''left'')
      in case py_index padded sibling_idx of
           Inl e \<Rightarrow> Inl e
         | Inr h \<Rightarrow>
             (case proof_loop rest (idx div 2) of
                Inl e \<Rightarrow> Inl e
              | Inr steps \<Rightarrow> Inr (\<lparr>hash = h, position = pos\<rparr> # steps)))"

definition get_proof :: "sha256 \<Rightarrow> merkle_tree \<Rightarrow> int \<Rightarrow> py_error + merkle_proof" where
  "get_proof sha t i =
     (if i < 0 \<or> i \<ge> int (length (leaves t)) then Inl IndexError
      else let levels = build_tree sha (leaves t)
           in case proof_loop (butlast levels) i of
                Inl e \<Rightarrow> Inl e
              | Inr steps \<Rightarrow>
                  (case py_index levels (- 1) of
                     Inl e \<Rightarrow> Inl e
                   | Inr top_level \<Rightarrow>
                       (case py_index top_level 0 of
                          Inl e \<Rightarrow> Inl e
                        | Inr r \<Rightarrow>
                            (case py_index (leaves t) i of
                               Inl e \<Rightarrow> Inl e
                             | Inr lh \<Rightarrow>
                                 Inr \<lparr>leaf_hash = lh, index = i,
                                      proof_hashes = steps, root_hash = r\<rparr>))))"

text \<open>The loop of \<open>verify_proof\<close> and the final comparison.\<close>

fun verify_loop :: "sha256 \<Rightarrow> string \<Rightarrow> proof_step list \<Rightarrow> string" where
  "verify_loop sha current [] = current"
| "verify_loop sha current (step # steps) =
     (let sibling = hash step
      in if position step = ''right''
         then verify_loop sha (hash_pair sha current sibling) steps
         else verify_loop sha (hash_pair sha sibling current) steps)"

definition verify_proof :: "sha256 \<Rightarrow> string \<Rightarrow> proof_step list \<Rightarrow> string \<Rightarrow> bool" where
  "verify_proof sha lh steps r = (verify_loop sha lh steps = r)"

subsection \<open>The levels of the tree, by recursion on the current level\<close>

text \<open>
  A proof device, not a function of the source: the list of levels that the loop of
  \<open>_build_tree\<close> produces from a current level onwards.
\<close>

function levels_from :: "sha256 \<Rightarrow> string list \<Rightarrow> string list list" where
  "levels_from sha current =
     current # (if 1 < length current then levels_from sha (pair_level sha (pad_level current)) else [])"
  by pat_completeness auto
termination
  by (relation "measure (\<lambda>(sha, current). length current)")
     (auto simp: length_parents_less simp del: length_pair_level)

declare levels_from.simps [simp del]

lemma levels_from_neq_Nil [simp]: "levels_from sha current \<noteq> []"
  by (subst levels_from.simps) simp

lemma build_levels_levels_from:
  "levels \<noteq> [] \<Longrightarrow> build_levels sha levels = butlast levels @ levels_from sha (last levels)"
proof (induction sha levels rule: build_levels.induct)
  case (1 sha levels)
  let ?next = "pair_level sha (pad_level (last levels))"
  show ?case
  proof (cases "1 < length (last levels)")
    case True
    have "build_levels sha levels = build_levels sha (levels @ [?next])"
      using True by (subst build_levels.simps) simp
    also have "\<dots> = levels @ levels_from sha ?next"
      using "1.IH" [OF True] by simp
    also have "\<dots> = butlast levels @ (last levels # levels_from sha ?next)"
      using "1.prems" by (metis append_butlast_last_id append_Cons append_Nil append_assoc)
    also have "last levels # levels_from sha ?next = levels_from sha (last levels)"
      using True by (subst (2) levels_from.simps) simp
    finally show ?thesis .
  next
    case False
    have "build_levels sha levels = levels"
      using False by (subst build_levels.simps) simp
    moreover have "levels_from sha (last levels) = [last levels]"
      using False by (subst levels_from.simps) simp
    ultimately show ?thesis
      using "1.prems" by simp
  qed
qed

lemma build_tree_levels_from:
  "ls \<noteq> [] \<Longrightarrow> build_tree sha ls = levels_from sha ls"
  by (simp add: build_tree_def build_levels_levels_from)

lemma pad_level_nth: "i < length level \<Longrightarrow> pad_level level ! i = level ! i"
  by (simp add: pad_level_def nth_append)

lemma pair_level_nth:
  "k < (length current + 1) div 2 \<Longrightarrow>
   pair_level sha current ! k = hash_pair sha (current ! (2 * k)) (current ! (2 * k + 1))"
  by (simp add: pair_level_def)

lemma top_level_singleton:
  "current \<noteq> [] \<Longrightarrow> length (last (levels_from sha current)) = 1"
proof (induction sha current rule: levels_from.induct)
  case (1 sha current)
  show ?case
  proof (cases "1 < length current")
    case True
    then have "pair_level sha (pad_level current) \<noteq> []"
      by (auto simp: length_pad_level simp flip: length_0_conv)
    with 1 True show ?thesis
      by (subst levels_from.simps) simp
  next
    case False
    with 1 show ?thesis
      by (subst levels_from.simps) (cases current; simp)
  qed
qed


lemma pair_level_nth_even:
  assumes "even i" and "Suc i < length p"
  shows "pair_level sha p ! (i div 2) = hash_pair sha (p ! i) (p ! Suc i)"
proof -
  from assms(1) obtain k where k: "i = 2 * k" by (elim evenE)
  with assms(2) have "k < (length p + 1) div 2" by simp
  then show ?thesis
    by (simp add: pair_level_nth k)
qed

lemma pair_level_nth_odd:
  assumes "odd i" and "i < length p"
  shows "pair_level sha p ! (i div 2) = hash_pair sha (p ! (i - 1)) (p ! i)"
proof -
  from assms(1) obtain k where k: "i = 2 * k + 1" by (elim oddE)
  with assms(2) have "k < (length p + 1) div 2" by simp
  then show ?thesis
    by (simp add: pair_level_nth k)
qed

lemma py_index_last:
  assumes "xs \<noteq> []"
  shows "py_index xs (- 1) = Inr (last xs)"
proof -
  from assms have pos: "Suc 0 \<le> length xs"
    by (cases xs) simp_all
  then have "nat (int (length xs) + - 1) = length xs - 1" by simp
  with assms pos show ?thesis
    by (simp add: py_index_def last_conv_nth)
qed

lemma py_index_nat:
  "i < length xs \<Longrightarrow> py_index xs (int i) = Inr (xs ! i)"
  by (simp add: py_index_def)

lemma proof_loop_Cons:
  "proof_loop (level # rest) idx =
     (case py_index (pad_level level) (if idx mod 2 = 0 then idx + 1 else idx - 1) of
        Inl e \<Rightarrow> Inl e
      | Inr h \<Rightarrow>
          (case proof_loop rest (idx div 2) of
             Inl e \<Rightarrow> Inl e
           | Inr steps \<Rightarrow>
               Inr (\<lparr>hash = h, position = (if idx mod 2 = 0 then ''right'' else ''left'')\<rparr> # steps)))"
  by (simp add: pad_level_def)

lemma proof_loop_Cons_even:
  assumes "even i" and "Suc i < length (pad_level level)"
    and "proof_loop rest (int (i div 2)) = Inr steps"
  shows "proof_loop (level # rest) (int i) =
           Inr (\<lparr>hash = pad_level level ! Suc i, position = ''right''\<rparr> # steps)"
proof -
  have m: "int i mod 2 = 0" using assms(1) by presburger
  have d: "int i div 2 = int (i div 2)" by simp
  have "py_index (pad_level level) (int (Suc i)) = Inr (pad_level level ! Suc i)"
    using assms(2) by (rule py_index_nat)
  then have p: "py_index (pad_level level) (int i + 1) = Inr (pad_level level ! Suc i)"
    by (simp add: add.commute)
  show ?thesis
    unfolding proof_loop_Cons m d using p assms(3) by simp
qed

lemma proof_loop_Cons_odd:
  assumes "odd i" and "i < length (pad_level level)"
    and "proof_loop rest (int (i div 2)) = Inr steps"
  shows "proof_loop (level # rest) (int i) =
           Inr (\<lparr>hash = pad_level level ! (i - 1), position = ''left''\<rparr> # steps)"
proof -
  have m: "int i mod 2 = 1" using assms(1) by presburger
  have d: "int i div 2 = int (i div 2)" by simp
  have "0 < i" using assms(1) by (cases i) auto
  then have s: "int i - 1 = int (i - 1)" by simp
  have p: "py_index (pad_level level) (int (i - 1)) = Inr (pad_level level ! (i - 1))"
    using assms(2) by (intro py_index_nat) simp
  show ?thesis
    unfolding proof_loop_Cons m d s using p assms(3) by simp
qed

lemma proof_loop_verifies:
  "i < length current \<Longrightarrow>
   \<exists>steps. proof_loop (butlast (levels_from sha current)) (int i) = Inr steps \<and>
           verify_loop sha (current ! i) steps = last (levels_from sha current) ! 0"
proof (induction sha current arbitrary: i rule: levels_from.induct)
  case (1 sha current)
  let ?padded = "pad_level current"
  let ?next = "pair_level sha ?padded"
  show ?case
  proof (cases "1 < length current")
    case False
    with "1.prems" have "i = 0" by simp
    moreover have "levels_from sha current = [current]"
      using False by (subst levels_from.simps) simp
    ultimately show ?thesis by simp
  next
    case True
    have unfold: "levels_from sha current = current # levels_from sha ?next"
      using True by (subst levels_from.simps) simp
    have len: "i div 2 < length ?next"
      using "1.prems" by (auto simp: length_pad_level)
    from "1.IH" [OF True len] obtain steps where
      loop: "proof_loop (butlast (levels_from sha ?next)) (int (i div 2)) = Inr steps" and
      ver: "verify_loop sha (?next ! (i div 2)) steps = last (levels_from sha ?next) ! 0"
      by blast
    have here: "?padded ! i = current ! i"
      using "1.prems" by (rule pad_level_nth)
    have ipad: "i < length ?padded"
      using "1.prems" by (simp add: length_pad_level)
    have butl: "butlast (levels_from sha current) = current # butlast (levels_from sha ?next)"
      by (simp add: unfold)
    have lst: "last (levels_from sha current) = last (levels_from sha ?next)"
      by (simp add: unfold)
    show ?thesis
    proof (cases "even i")
      case even: True
      have si: "Suc i < length ?padded"
        using even "1.prems" by (auto simp: length_pad_level elim!: evenE oddE)
      let ?step = "\<lparr>hash = ?padded ! Suc i, position = ''right''\<rparr>"
      have "proof_loop (butlast (levels_from sha current)) (int i) = Inr (?step # steps)"
        unfolding butl using even si loop by (rule proof_loop_Cons_even)
      moreover have "verify_loop sha (current ! i) (?step # steps) =
            last (levels_from sha current) ! 0"
        using ver pair_level_nth_even [OF even si, of sha] here by (simp add: lst)
      ultimately show ?thesis by blast
    next
      case odd: False
      let ?step = "\<lparr>hash = ?padded ! (i - 1), position = ''left''\<rparr>"
      have "proof_loop (butlast (levels_from sha current)) (int i) = Inr (?step # steps)"
        unfolding butl using odd ipad loop by (rule proof_loop_Cons_odd)
      moreover have "verify_loop sha (current ! i) (?step # steps) =
            last (levels_from sha current) ! 0"
        using ver pair_level_nth_odd [OF odd ipad, of sha] here by (simp add: lst)
      ultimately show ?thesis by blast
    qed
  qed
qed


lemma levels_from_nth_0: "levels_from sha current ! 0 = current"
  by (subst levels_from.simps) simp

lemma levels_from_nth_Suc:
  "Suc k < length (levels_from sha current) \<Longrightarrow>
   levels_from sha current ! Suc k = pair_level sha (pad_level (levels_from sha current ! k))"
proof (induction sha current arbitrary: k rule: levels_from.induct)
  case (1 sha current)
  let ?next = "pair_level sha (pad_level current)"
  have True: "1 < length current"
  proof (rule ccontr)
    assume "\<not> 1 < length current"
    then have "levels_from sha current = [current]"
      by (subst levels_from.simps) simp
    with "1.prems" show False by simp
  qed
  then have unfold: "levels_from sha current = current # levels_from sha ?next"
    by (subst levels_from.simps) simp
  show ?case
  proof (cases k)
    case 0
    then show ?thesis
      by (simp add: unfold levels_from_nth_0)
  next
    case (Suc j)
    with "1.prems" have "Suc j < length (levels_from sha ?next)"
      by (simp add: unfold)
    from "1.IH" [OF True this] show ?thesis
      by (simp add: unfold Suc)
  qed
qed

lemma last_pair_level_odd:
  assumes "odd (length level)"
  shows "last (pair_level sha (pad_level level)) = hash_pair sha (last level) (last level)"
proof -
  from assms obtain k where k: "length level = 2 * k + 1" by (elim oddE)
  then have ne: "level \<noteq> []" by auto
  have pad: "pad_level level = level @ [last level]"
    using assms by (simp add: pad_level_def odd_iff_mod_2_eq_one)
  have len: "length (pair_level sha (pad_level level)) = Suc k"
    by (simp add: pad k)
  then have "last (pair_level sha (pad_level level)) = pair_level sha (pad_level level) ! k"
    by (metis diff_Suc_1 last_conv_nth length_0_conv nat.distinct(1))
  also have "\<dots> = hash_pair sha (pad_level level ! (2 * k)) (pad_level level ! (2 * k + 1))"
    by (rule pair_level_nth) (simp add: pad k)
  also have "pad_level level ! (2 * k) = last level"
    using ne k by (simp add: pad nth_append last_conv_nth)
  also have "pad_level level ! (2 * k + 1) = last level"
    using k by (simp add: pad nth_append)
  finally show ?thesis .
qed

lemma root_of_levels_from:
  "leaves t \<noteq> [] \<Longrightarrow> root_of sha t = Inr (Some (last (levels_from sha (leaves t)) ! 0))"
proof -
  assume ne: "leaves t \<noteq> []"
  let ?levels = "levels_from sha (leaves t)"
  have "py_index ?levels (- 1) = Inr (last ?levels)"
    by (rule py_index_last) simp
  moreover have "py_index (last ?levels) 0 = Inr (last ?levels ! 0)"
    using top_level_singleton [OF ne, of sha] by (simp add: py_index_def)
  ultimately show ?thesis
    using ne by (simp add: root_of_def build_tree_levels_from)
qed


subsection \<open>Populating the tree\<close>

text \<open>
  Calling \<open>append\<close> on each item in order; the returned leaf hashes are what the driver
  persists (\<open>merkle_leaf_hash\<close>).
\<close>

fun append_all ::
  "sha256 \<Rightarrow> ('item \<Rightarrow> bytes) \<Rightarrow> merkle_tree \<Rightarrow> 'item list \<Rightarrow> string list \<times> merkle_tree" where
  "append_all sha canonical t [] = ([], t)"
| "append_all sha canonical t (x # xs) =
     (let (h, t') = append_item sha canonical t x;
          (hs, t'') = append_all sha canonical t' xs
      in (h # hs, t''))"

text \<open>
  The reconstruction loop of \<open>main\<close>:
  \<open>for lh in existing_leaves: merkle_tree.append_leaf_hash(lh)\<close>.
\<close>

fun seed :: "merkle_tree \<Rightarrow> string list \<Rightarrow> merkle_tree" where
  "seed t [] = t"
| "seed t (lh # lhs) = seed (append_leaf_hash t lh) lhs"

lemma append_all_leaves:
  "append_all sha canonical t xs =
     (map (hash_leaf sha canonical) xs, t\<lparr>leaves := leaves t @ map (hash_leaf sha canonical) xs\<rparr>)"
  by (induction xs arbitrary: t) (simp_all add: append_item_def Let_def)

lemma seed_leaves: "seed t hs = t\<lparr>leaves := leaves t @ hs\<rparr>"
  by (induction hs arbitrary: t) (simp_all add: append_leaf_hash_def)

section \<open>Claims about the Merkle log\<close>

text \<open>
  C1. For a tree with \<open>n\<close> leaves and an index \<open>0 \<le> i < n\<close>, \<open>get_proof\<close> returns the
  \<open>i\<close>-th leaf hash, the root of the tree as \<open>root_hash\<close>, and steps that
  \<open>verify_proof\<close> accepts; for \<open>i < 0\<close> or \<open>i \<ge> n\<close> it raises \<open>IndexError\<close>.
\<close>

theorem get_proof_verifies:
  "(0 \<le> i \<and> i < int (count t) \<longrightarrow>
      (\<exists>p. get_proof sha t i = Inr p \<and>
           leaf_hash p = leaves t ! nat i \<and> index p = i \<and>
           root_of sha t = Inr (Some (root_hash p)) \<and>
           verify_proof sha (leaf_hash p) (proof_hashes p) (root_hash p))) \<and>
   (i < 0 \<or> int (count t) \<le> i \<longrightarrow> get_proof sha t i = Inl IndexError)"
proof (intro conjI impI)
  assume range: "0 \<le> i \<and> i < int (count t)"
  then have ne: "leaves t \<noteq> []" and lt: "nat i < length (leaves t)"
    by (auto simp: count_def)
  let ?levels = "levels_from sha (leaves t)"
  from proof_loop_verifies [OF lt, of sha] obtain steps where
    loop: "proof_loop (butlast ?levels) (int (nat i)) = Inr steps" and
    ver: "verify_loop sha (leaves t ! nat i) steps = last ?levels ! 0"
    by blast
  have i: "int (nat i) = i" using range by simp
  have top: "py_index ?levels (- 1) = Inr (last ?levels)"
    by (rule py_index_last) simp
  have first: "py_index (last ?levels) 0 = Inr (last ?levels ! 0)"
    using top_level_singleton [OF ne, of sha] by (simp add: py_index_def)
  have leaf: "py_index (leaves t) i = Inr (leaves t ! nat i)"
    using py_index_nat [OF lt] unfolding i .
  let ?p = "\<lparr>leaf_hash = leaves t ! nat i, index = i, proof_hashes = steps,
             root_hash = last ?levels ! 0\<rparr>"
  have "get_proof sha t i = Inr ?p"
    using range loop top first leaf
    by (simp add: get_proof_def count_def build_tree_levels_from [OF ne] i)
  moreover have "root_of sha t = Inr (Some (root_hash ?p))"
    by (simp add: root_of_levels_from [OF ne])
  moreover have "verify_proof sha (leaf_hash ?p) (proof_hashes ?p) (root_hash ?p)"
    using ver by (simp add: verify_proof_def)
  ultimately show "\<exists>p. get_proof sha t i = Inr p \<and>
           leaf_hash p = leaves t ! nat i \<and> index p = i \<and>
           root_of sha t = Inr (Some (root_hash p)) \<and>
           verify_proof sha (leaf_hash p) (proof_hashes p) (root_hash p)"
    by (intro exI [of _ ?p]) simp
next
  assume "i < 0 \<or> int (count t) \<le> i"
  then show "get_proof sha t i = Inl IndexError"
    by (auto simp: get_proof_def count_def)
qed

theorem get_proof_verifies_witness:
  "(\<exists>p. get_proof (\<lambda>b. b) \<lparr>leaves = [''a'', ''b'', ''c'']\<rparr> 2 = Inr p \<and>
        leaf_hash p = ''c'' \<and> index p = 2 \<and>
        root_of (\<lambda>b. b) \<lparr>leaves = [''a'', ''b'', ''c'']\<rparr> = Inr (Some (root_hash p)) \<and>
        verify_proof (\<lambda>b. b) (leaf_hash p) (proof_hashes p) (root_hash p)) \<and>
   get_proof (\<lambda>b. b) \<lparr>leaves = [''a'', ''b'', ''c'']\<rparr> 3 = Inl IndexError \<and>
   get_proof (\<lambda>b. b) \<lparr>leaves = [''a'', ''b'', ''c'']\<rparr> (- 1) = Inl IndexError"
  using get_proof_verifies [of 2 "\<lparr>leaves = [''a'', ''b'', ''c'']\<rparr>" "\<lambda>b. b"]
    get_proof_verifies [of 3 "\<lparr>leaves = [''a'', ''b'', ''c'']\<rparr>" "\<lambda>b. b"]
    get_proof_verifies [of "- 1" "\<lparr>leaves = [''a'', ''b'', ''c'']\<rparr>" "\<lambda>b. b"]
  by (simp add: count_def)

text \<open>
  C2. A fresh tree seeded with the leaf hashes of a list of items, through
  \<open>append_leaf_hash\<close> or \<open>load_leaves\<close>, has the root and the count of the tree built by
  \<open>append\<close> on each item in order, and a further \<open>append\<close> gives the same root on both.
\<close>

theorem seeding_reconstructs_tree:
  "(let (hs, built) = append_all sha canonical MerkleTree items
    in hs = map (hash_leaf sha canonical) items \<and>
       root_of sha (seed MerkleTree hs) = root_of sha built \<and>
       count (seed MerkleTree hs) = count built \<and>
       root_of sha (load_leaves MerkleTree hs) = root_of sha built \<and>
       count (load_leaves MerkleTree hs) = count built \<and>
       (\<forall>x. root_of sha (snd (append_item sha canonical (seed MerkleTree hs) x)) =
            root_of sha (snd (append_item sha canonical built x))) \<and>
       (\<forall>x. root_of sha (snd (append_item sha canonical (load_leaves MerkleTree hs) x)) =
            root_of sha (snd (append_item sha canonical built x))))"
  by (simp add: append_all_leaves seed_leaves load_leaves_def MerkleTree_def)

text \<open>
  C3. The leaf hash is SHA-256 of the byte 0x00 followed by the canonical JSON bytes, the
  interior hash is SHA-256 of the byte 0x01 followed by the two hex strings as they are;
  every level after the first is the pairing of the level below, whose last element is
  duplicated when its length is odd; the root of a one-leaf tree is that leaf hash.
\<close>

theorem merkle_hashing:
  "hash_leaf sha canonical item = sha (CHR 0x00 # canonical item) \<and>
   hash_pair sha l r = sha (CHR 0x01 # l @ r) \<and>
   (ls \<noteq> [] \<longrightarrow> build_tree sha ls ! 0 = ls) \<and>
   (\<forall>k. Suc k < length (build_tree sha ls) \<longrightarrow>
        build_tree sha ls ! Suc k = pair_level sha (pad_level (build_tree sha ls ! k))) \<and>
   (odd (length level) \<longrightarrow>
        pad_level level = level @ [last level] \<and>
        length (pair_level sha (pad_level level)) = (length level + 1) div 2 \<and>
        last (pair_level sha (pad_level level)) = hash_pair sha (last level) (last level)) \<and>
   (even (length level) \<longrightarrow> pad_level level = level) \<and>
   (\<forall>k. 2 * k + 1 < length (pad_level level) \<longrightarrow>
        pair_level sha (pad_level level) ! k =
          hash_pair sha (pad_level level ! (2 * k)) (pad_level level ! (2 * k + 1))) \<and>
   build_tree sha [h] = [[h]] \<and>
   root_of sha (t\<lparr>leaves := [h]\<rparr>) = Inr (Some h)"
proof (intro conjI allI impI)
  show "hash_leaf sha canonical item = sha (CHR 0x00 # canonical item)"
    by (simp add: hash_leaf_def)
  show "hash_pair sha l r = sha (CHR 0x01 # l @ r)"
    by (simp add: hash_pair_def)
  show "build_tree sha ls ! 0 = ls" if "ls \<noteq> []"
    using that by (simp add: build_tree_levels_from levels_from_nth_0)
  show "build_tree sha ls ! Suc k = pair_level sha (pad_level (build_tree sha ls ! k))"
    if "Suc k < length (build_tree sha ls)" for k
  proof (cases "ls = []")
    case True
    with that show ?thesis by (simp add: build_tree_def)
  next
    case False
    with that show ?thesis
      by (simp add: build_tree_levels_from levels_from_nth_Suc)
  qed
  show "pad_level level = level @ [last level]" if "odd (length level)"
    using that by (simp add: pad_level_def odd_iff_mod_2_eq_one)
  show "length (pair_level sha (pad_level level)) = (length level + 1) div 2"
    if "odd (length level)"
    using that by (auto simp: length_pad_level elim!: oddE)
  show "last (pair_level sha (pad_level level)) = hash_pair sha (last level) (last level)"
    if "odd (length level)"
    using that by (rule last_pair_level_odd)
  show "pad_level level = level" if "even (length level)"
    using that by (simp add: pad_level_def)
  show "pair_level sha (pad_level level) ! k =
          hash_pair sha (pad_level level ! (2 * k)) (pad_level level ! (2 * k + 1))"
    if "2 * k + 1 < length (pad_level level)" for k
    using that by (intro pair_level_nth) simp
  have one: "levels_from sha [h] = [[h]]"
    by (subst levels_from.simps) simp
  show "build_tree sha [h] = [[h]]"
    by (simp add: build_tree_levels_from one)
  show "root_of sha (t\<lparr>leaves := [h]\<rparr>) = Inr (Some h)"
    by (simp add: root_of_levels_from one)
qed

theorem merkle_hashing_witness:
  "hash_leaf (\<lambda>b. b) (\<lambda>x. x) ''{}'' = CHR 0x00 # ''{}'' \<and>
   hash_pair (\<lambda>b. b) ''ab'' ''cd'' = CHR 0x01 # ''abcd'' \<and>
   build_tree (\<lambda>b. b) [''a'', ''b'', ''c''] ! 0 = [''a'', ''b'', ''c''] \<and>
   build_tree (\<lambda>b. b) [''a'', ''b'', ''c''] ! 1 =
     [CHR 0x01 # ''ab'', CHR 0x01 # ''cc''] \<and>
   pad_level [''a'', ''b'', ''c''] = [''a'', ''b'', ''c'', ''c''] \<and>
   pad_level [''a'', ''b''] = [''a'', ''b''] \<and>
   root_of (\<lambda>b. b) \<lparr>leaves = [''a'']\<rparr> = Inr (Some ''a'')"
proof -
  note inst = merkle_hashing [of "\<lambda>b. b" "\<lambda>x. x" "''{}''" "''ab''" "''cd''"
      "[''a'', ''b'', ''c'']" "[''a'', ''b'', ''c'']" "''a''" "\<lparr>leaves = [''x'']\<rparr>"]
  have len: "length (build_tree (\<lambda>b. b) [''a'', ''b'', ''c'']) = 3"
    by (simp add: build_tree_def build_levels.simps pad_level_def)
  have pad: "pad_level [''a'', ''b'', ''c''] = [''a'', ''b'', ''c'', ''c'']"
    using inst by simp
  have l0: "build_tree (\<lambda>b. b) [''a'', ''b'', ''c''] ! 0 = [''a'', ''b'', ''c'']"
    using inst by simp
  have "build_tree (\<lambda>b. b) [''a'', ''b'', ''c''] ! Suc 0 =
      pair_level (\<lambda>b. b) (pad_level (build_tree (\<lambda>b. b) [''a'', ''b'', ''c''] ! 0))"
    using inst len by simp
  moreover have "pair_level (\<lambda>b. b) [''a'', ''b'', ''c'', ''c''] =
      [CHR 0x01 # ''ab'', CHR 0x01 # ''cc'']"
    by code_simp
  ultimately have l1: "build_tree (\<lambda>b. b) [''a'', ''b'', ''c''] ! 1 =
      [CHR 0x01 # ''ab'', CHR 0x01 # ''cc'']"
    by (simp add: l0 pad)
  show ?thesis
    using inst l0 l1 pad
    merkle_hashing [of "\<lambda>b. b" "\<lambda>x. x" "''{}''" "''ab''" "''cd''"
      "[''a'', ''b'', ''c'']" "[''a'', ''b'']" "''a''" "\<lparr>leaves = [''x'']\<rparr>"]
    by simp
qed


section \<open>checks.py: CheckResult\<close>

text \<open>
  The values a summary or a finding holds: integers, strings and \<open>None\<close>. A dictionary
  is a map from keys to values. Arithmetic and ordering on a value that is not an integer
  raise \<open>TypeError\<close>, as in Python.

  A float is denoted by a real number, ordered as in Python, and the float that Python
  reads from a decimal literal of the source (\<open>0.1\<close>, \<open>0.95\<close>) is written as that
  decimal. Floating-point arithmetic is not computed here: the operations of the
  interpreter and its library that the source calls are the fields of the record
  \<open>pylib\<close>, a parameter of every function that uses one.
  \<^item> \<open>int_truediv a b\<close> is \<open>a / b\<close> on integers with \<open>b \<noteq> 0\<close>, and
    \<open>truediv_overflows a b\<close> says that this division raises \<open>OverflowError\<close>;
  \<^item> \<open>float_sub\<close>, \<open>float_add\<close> and \<open>float_div\<close> are \<open>-\<close>, \<open>+\<close> and \<open>/\<close> on floats
    (an integer operand is converted first), \<open>float_sum\<close> is the built-in \<open>sum\<close>;
  \<^item> \<open>float_round x n\<close> is \<open>round(x, n)\<close>;
  \<^item> \<open>str_lower\<close> is \<open>str.lower\<close>.
\<close>

datatype pyval = PInt int | PStr string | PNone

type_synonym pydict = "string \<rightharpoonup> pyval"

definition dict_get :: "pydict \<Rightarrow> string \<Rightarrow> pyval \<Rightarrow> pyval" where
  "dict_get d k dflt = (case d k of None \<Rightarrow> dflt | Some v \<Rightarrow> v)"

fun py_gt_int :: "pyval \<Rightarrow> int \<Rightarrow> py_error + bool" where
  "py_gt_int (PInt a) b = Inr (a > b)"
| "py_gt_int _ b = Inl TypeError"

record pylib =
  int_truediv :: "int \<Rightarrow> int \<Rightarrow> real"
  truediv_overflows :: "int \<Rightarrow> int \<Rightarrow> bool"
  float_sub :: "real \<Rightarrow> real \<Rightarrow> real"
  float_add :: "real \<Rightarrow> real \<Rightarrow> real"
  float_div :: "real \<Rightarrow> real \<Rightarrow> real"
  float_sum :: "real list \<Rightarrow> real"
  float_round :: "real \<Rightarrow> nat \<Rightarrow> real"
  str_lower :: "string \<Rightarrow> string"

fun py_truediv :: "pylib \<Rightarrow> pyval \<Rightarrow> pyval \<Rightarrow> py_error + real" where
  "py_truediv lib (PInt a) (PInt b) =
     (if b = 0 then Inl ZeroDivisionError
      else if truediv_overflows lib a b then Inl OverflowError
      else Inr (int_truediv lib a b))"
| "py_truediv lib _ _ = Inl TypeError"

fun py_sub :: "pyval \<Rightarrow> pyval \<Rightarrow> py_error + int" where
  "py_sub (PInt a) (PInt b) = Inr (a - b)"
| "py_sub _ _ = Inl TypeError"

text \<open>\<open>str(n)\<close> for an integer, and the text an f-string inserts for a value.\<close>

fun digits_of :: "nat \<Rightarrow> string" where
  "digits_of n =
     (if n < 10 then [char_of (48 + n)]
      else digits_of (n div 10) @ [char_of (48 + n mod 10)])"

declare digits_of.simps [simp del]

definition str_int :: "int \<Rightarrow> string" where
  "str_int i = (if i < 0 then CHR ''-'' # digits_of (nat (- i)) else digits_of (nat i))"

fun py_str :: "pyval \<Rightarrow> string" where
  "py_str (PInt i) = str_int i"
| "py_str (PStr s) = s"
| "py_str PNone = ''None''"

record CheckResult =
  status :: string
  summary :: pydict
  findings :: "pydict list"
  short_description :: string
  description :: string

section \<open>claims.py\<close>

datatype ClaimResult = SATISFIED | NOT_SATISFIED | PARTIAL | INDETERMINATE | NOT_APPLICABLE

definition AGENT_ID :: string where
  "AGENT_ID = ''meridian-agent''"

definition AGENT_VERSION :: string where
  "AGENT_VERSION = ''2.0.0''"

definition DEFAULT_TTL_SECONDS :: int where
  "DEFAULT_TTL_SECONDS = 86400"

text \<open>
  \<open>_compute_confidence\<close>. \<open>result.summary or {}\<close> is the summary itself: an empty
  dictionary is the only falsy one.
\<close>

definition compute_confidence :: "pylib \<Rightarrow> CheckResult \<Rightarrow> string \<Rightarrow> py_error + real" where
  "compute_confidence lib result ctrl_id =
     (if status result = ''error'' then Inr 0.1
      else if status result = ''pass'' then Inr 1.0
      else if ctrl_id = ''LA.01'' then
        (let checked = dict_get (summary result) ''recent_users_checked'' (PInt 0);
             missing = dict_get (summary result) ''missing_approval'' (PInt 0)
         in case py_gt_int checked 0 of
              Inl e \<Rightarrow> Inl e
            | Inr True \<Rightarrow>
                (case py_truediv lib missing checked of
                   Inl e \<Rightarrow> Inl e
                 | Inr q \<Rightarrow> Inr (float_round lib (float_sub lib 1.0 q) 4))
            | Inr False \<Rightarrow> Inr 0.0)
      else if ctrl_id = ''LA.02'' then
        (let tracked = dict_get (summary result) ''disabled_users_with_sla_tracking'' (PInt 0);
             breaches = dict_get (summary result) ''sla_breaches'' (PInt 0)
         in case py_gt_int tracked 0 of
              Inl e \<Rightarrow> Inl e
            | Inr True \<Rightarrow>
                (case py_truediv lib breaches tracked of
                   Inl e \<Rightarrow> Inl e
                 | Inr q \<Rightarrow> Inr (float_round lib (float_sub lib 1.0 q) 4))
            | Inr False \<Rightarrow> Inr 0.0)
      else Inr 0.0)"

text \<open>
  \<open>_build_caveats\<close>. The four \<open>if\<close> statements run one after the other, each
  appending to the list; an exception in one of them leaves the function.
\<close>

definition build_caveats :: "CheckResult \<Rightarrow> string \<Rightarrow> py_error + string list" where
  "build_caveats result ctrl_id =
     (if status result = ''error''
      then Inr [''Check failed with an error; evidence may be incomplete.'']
      else
        let c1 = (if ctrl_id = ''LA.01'' \<and> status result = ''fail''
                  then [py_str (dict_get (summary result) ''missing_approval'' (PInt 0)) @
                        '' account(s) are missing the required approval attribute and '' @
                        ''may represent unauthorised access grants.'']
                  else []);
            c2 = (if ctrl_id = ''LA.02'' \<and> status result = ''fail''
                  then map (\<lambda>f. ''User '' @ [CHR 0x27] @ py_str (dict_get f ''username'' (PStr ''?'')) @
                                 [CHR 0x27] @ '' is '' @ py_str (dict_get f ''days_overdue'' (PInt 0)) @
                                 '' day(s) overdue for access revocation.'')
                         (findings result)
                  else [])
        in case (if ctrl_id = ''LA.03'' \<and> status result = ''fail''
                 then (let days = dict_get (summary result) ''days_since_uar'' PNone
                       in if days = PNone
                          then Inr [''No UAR completion date found in the realm configuration.'']
                          else case py_sub days (dict_get (summary result) ''max_days_since_uar'' (PInt 90)) of
                                 Inl e \<Rightarrow> Inl e
                               | Inr over \<Rightarrow> Inr [''Access review is '' @ str_int over @ '' day(s) overdue.''])
                 else Inr []) of
             Inl e \<Rightarrow> Inl e
           | Inr c3 \<Rightarrow>
               (case (if ctrl_id = ''LA.04'' \<and> status result = ''fail''
                      then (case py_sub (dict_get (summary result) ''admin_count'' (PInt 0))
                                        (dict_get (summary result) ''max_allowed'' (PInt 0)) of
                              Inl e \<Rightarrow> Inl e
                            | Inr excess \<Rightarrow>
                                Inr [str_int excess @
                                     '' excess privileged account(s) require immediate review and removal.''])
                      else Inr []) of
                  Inl e \<Rightarrow> Inl e
                | Inr c4 \<Rightarrow> Inr (c1 @ c2 @ c3 @ c4)))"

definition build_recommendations :: "CheckResult \<Rightarrow> string \<Rightarrow> string list" where
  "build_recommendations result ctrl_id =
     (if status result \<in> {''pass'', ''error''} then []
      else if ctrl_id = ''LA.01'' then
        [''Audit provisioning workflow to enforce approval gates before account creation.'',
         ''Set the required 'approvedBy' attribute for all flagged accounts retroactively.'',
         ''Enable automated provisioning enforcement that blocks account creation without an approved request.'']
      else if ctrl_id = ''LA.02'' then
        [''Immediately disable access for all accounts past the SLA deadline.'',
         ''Implement automated deprovisioning triggered by termination events.'',
         ''Review and tighten the offboarding SLA with HR and IT operations.'']
      else if ctrl_id = ''LA.03'' then
        [''Complete a User Access Review immediately and record the date in realm attributes.'',
         ''Schedule quarterly UAR reminders and assign a named owner.'',
         ''Automate UAR initiation and tracking within the IAM platform.'']
      else if ctrl_id = ''LA.04'' then
        [''Immediately remove or downgrade excess privileged accounts.'',
         ''Implement a Just-in-Time (JIT) privileged access model.'',
         ''Establish a periodic admin account review cadence.'']
      else [''Review and remediate the identified control failure.''])"

text \<open>
  \<open>CONTROL_DOMAINS.get(ctrl_id, f"...{ctrl_id.lower().replace('.', '_')}")\<close>.
\<close>

definition claim_domain :: "pylib \<Rightarrow> string \<Rightarrow> string" where
  "claim_domain lib ctrl_id =
     (if ctrl_id = ''LA.01'' then ''identity_and_access.logical_access.new_access''
      else if ctrl_id = ''LA.02'' then ''identity_and_access.logical_access.terminations''
      else if ctrl_id = ''LA.03'' then ''identity_and_access.logical_access.user_access_review''
      else if ctrl_id = ''LA.04'' then ''identity_and_access.logical_access.admin_access''
      else ''identity_and_access.logical_access.'' @
           map (\<lambda>c. if c = CHR ''.'' then CHR ''_'' else c) (str_lower lib ctrl_id))"

text \<open>
  The control definition of \<open>controls.yaml\<close>, with the keys the agent reads.
\<close>

record control =
  control_id :: string
  control_name :: string
  check_name :: string

text \<open>
  The Claim, without the fields that come from the clock, the random UUID, the opinion
  text, the scope and the signature: none of them is read when the remaining fields are
  computed.
\<close>

record Claim =
  domain :: string
  result :: ClaimResult
  confidence :: real
  evidence_refs :: "string list"
  caveats :: "string list"
  recommendations :: "string list"
  ttl_seconds :: int
  agent_id :: string
  agent_version :: string

definition build_claim ::
  "pylib \<Rightarrow> CheckResult \<Rightarrow> string \<Rightarrow> control \<Rightarrow> string list \<Rightarrow> py_error + Claim" where
  "build_claim lib res evidence_id ctrl product_ids =
     (let ctrl_id = control_id ctrl
      in case compute_confidence lib res ctrl_id of
           Inl e \<Rightarrow> Inl e
         | Inr conf \<Rightarrow>
             (let claim_result =
                    (if status res = ''pass'' then SATISFIED
                     else if status res = ''error'' then INDETERMINATE
                     else if 0.0 < conf \<and> conf < 1.0 then PARTIAL
                     else NOT_SATISFIED)
              in case build_caveats res ctrl_id of
                   Inl e \<Rightarrow> Inl e
                 | Inr cavs \<Rightarrow>
                     Inr \<lparr>domain = claim_domain lib ctrl_id,
                          result = claim_result,
                          confidence = conf,
                          evidence_refs = [evidence_id],
                          caveats = cavs,
                          recommendations = build_recommendations res ctrl_id,
                          ttl_seconds = DEFAULT_TTL_SECONDS,
                          agent_id = AGENT_ID,
                          agent_version = AGENT_VERSION\<rparr>))"

section \<open>envelope.py\<close>

datatype TrustLevel = VERIFIED | HIGH | MEDIUM | LOW | CRITICAL

datatype DisclosureLevel = FULL | CLAIMS_ONLY | ZERO_KNOWLEDGE

definition compute_trust_level :: "real \<Rightarrow> TrustLevel" where
  "compute_trust_level composite =
     (if composite \<ge> 0.95 then VERIFIED
      else if composite \<ge> 0.75 then HIGH
      else if composite \<ge> 0.55 then MEDIUM
      else if composite \<ge> 0.30 then LOW
      else CRITICAL)"

record EvidenceSummary =
  total_items :: nat
  merkle_root :: "string option"
  collection_window_start :: string
  domains_covered :: "string list"

text \<open>
  \<open>_compute_domain_scores\<close>: the accumulator is a dictionary in insertion order, here an
  association list of \<open>(domain, (satisfied, total, confidence_sum))\<close>.
\<close>

fun domain_add ::
  "pylib \<Rightarrow> Claim \<Rightarrow> (string \<times> nat \<times> nat \<times> real) list \<Rightarrow> (string \<times> nat \<times> nat \<times> real) list" where
  "domain_add lib c [] =
     [(domain c, (if result c = SATISFIED then 1 else 0), 1, float_add lib 0.0 (confidence c))]"
| "domain_add lib c ((d, s, n, cs) # rest) =
     (if d = domain c
      then (d, (if result c = SATISFIED then s + 1 else s), n + 1,
            float_add lib cs (confidence c)) # rest
      else (d, s, n, cs) # domain_add lib c rest)"

record DomainScore =
  satisfied :: nat
  total :: nat
  avg_confidence :: real

definition compute_domain_scores :: "pylib \<Rightarrow> Claim list \<Rightarrow> (string \<times> DomainScore) list" where
  "compute_domain_scores lib claims =
     map (\<lambda>(d, s, n, cs).
            (d, \<lparr>satisfied = s, total = n,
                 avg_confidence =
                   (if n \<noteq> 0 then float_round lib (float_div lib cs (real n)) 4 else 0.0)\<rparr>))
       (foldl (\<lambda>domains c. domain_add lib c domains) [] claims)"

text \<open>
  The TrustEnvelope, without the identifier, the timestamps, the public key, the
  framework mappings and the signature.
\<close>

record TrustEnvelope =
  env_control_id :: string
  env_control_name :: string
  product_id :: string
  env_claims :: "Claim list"
  evidence_summary :: EvidenceSummary
  trust_level :: TrustLevel
  composite_confidence :: real
  domain_scores :: "(string \<times> DomainScore) list"
  disclosure_level :: DisclosureLevel
  env_agent_id :: string
  env_agent_version :: string

definition build_trust_envelope ::
  "pylib \<Rightarrow> sha256 \<Rightarrow> control \<Rightarrow> string \<Rightarrow> Claim list \<Rightarrow> merkle_tree \<Rightarrow> string \<Rightarrow>
   DisclosureLevel \<Rightarrow> py_error + TrustEnvelope" where
  "build_trust_envelope lib sha ctrl pid claims tree window_start disclosure =
     (let composite = (if claims \<noteq> []
                       then float_round lib
                              (float_div lib (float_sum lib (map confidence claims))
                                 (real (length claims))) 4
                       else 0.0);
          level = compute_trust_level composite;
          scores = compute_domain_scores lib claims
      in case root_of sha tree of
           Inl e \<Rightarrow> Inl e
         | Inr r \<Rightarrow>
             Inr \<lparr>env_control_id = control_id ctrl,
                  env_control_name = control_name ctrl,
                  product_id = pid,
                  env_claims = claims,
                  evidence_summary =
                    \<lparr>total_items = count tree, merkle_root = r,
                     collection_window_start = window_start,
                     domains_covered = map fst scores\<rparr>,
                  trust_level = level,
                  composite_confidence = composite,
                  domain_scores = scores,
                  disclosure_level = disclosure,
                  env_agent_id = AGENT_ID,
                  env_agent_version = AGENT_VERSION\<rparr>)"

section \<open>Claims about the claim builder and the envelope builder\<close>













lemma root_of_total: "\<exists>r. root_of sha t = Inr r"
proof (cases "leaves t = []")
  case True
  then show ?thesis by (simp add: root_of_def)
next
  case False
  then show ?thesis by (simp add: root_of_levels_from)
qed

text \<open>
  C8, as stated, fails for status error: \<open>_build_caveats\<close> returns one caveat there.
\<close>

theorem error_claim_has_caveat:
  "\<forall>lib. \<exists>c. build_claim lib
         \<lparr>status = ''error'', summary = [''error'' \<mapsto> PStr ''timeout''],
          findings = [], short_description = [], description = []\<rparr>
         ''ev-1''
         \<lparr>control_id = ''LA.01'', control_name = ''New access'', check_name = ''new_access_no_approval''\<rparr>
         [] = Inr c \<and>
       caveats c = [''Check failed with an error; evidence may be incomplete.''] \<and>
       caveats c \<noteq> []"
  by (simp add: build_claim_def compute_confidence_def build_caveats_def Let_def)

text \<open>
  C8, amended. For status pass the Claim has no caveats and no recommendations; for status
  error it has no recommendations and exactly one caveat, the fixed text
  "Check failed with an error; evidence may be incomplete.".
\<close>

theorem pass_and_error_claim_lists:
  "(status r = ''pass'' \<longrightarrow>
      (\<exists>c. build_claim lib r evidence_id ctrl product_ids = Inr c \<and>
           caveats c = [] \<and> recommendations c = [])) \<and>
   (status r = ''error'' \<longrightarrow>
      (\<exists>c. build_claim lib r evidence_id ctrl product_ids = Inr c \<and>
           caveats c = [''Check failed with an error; evidence may be incomplete.''] \<and>
           recommendations c = []))"
  by (simp add: build_claim_def compute_confidence_def build_caveats_def
      build_recommendations_def Let_def)

theorem pass_and_error_claim_lists_witness:
  "\<forall>lib.
   (\<exists>c. build_claim lib
          \<lparr>status = ''pass'', summary = [''admin_count'' \<mapsto> PInt 1, ''max_allowed'' \<mapsto> PInt 3],
           findings = [], short_description = [], description = []\<rparr>
          ''ev-1''
          \<lparr>control_id = ''LA.04'', control_name = ''Admin access'', check_name = ''admin_access_count''\<rparr>
          [''P1''] = Inr c \<and>
        caveats c = [] \<and> recommendations c = []) \<and>
   (\<exists>c. build_claim lib
          \<lparr>status = ''error'', summary = [''error'' \<mapsto> PStr ''timeout''],
           findings = [], short_description = [], description = []\<rparr>
          ''ev-2''
          \<lparr>control_id = ''LA.04'', control_name = ''Admin access'', check_name = ''admin_access_count''\<rparr>
          [''P1''] = Inr c \<and>
        caveats c = [''Check failed with an error; evidence may be incomplete.''] \<and>
        recommendations c = [])"
proof
  fix lib
  show "(\<exists>c. build_claim lib
          \<lparr>status = ''pass'', summary = [''admin_count'' \<mapsto> PInt 1, ''max_allowed'' \<mapsto> PInt 3],
           findings = [], short_description = [], description = []\<rparr>
          ''ev-1''
          \<lparr>control_id = ''LA.04'', control_name = ''Admin access'', check_name = ''admin_access_count''\<rparr>
          [''P1''] = Inr c \<and>
        caveats c = [] \<and> recommendations c = []) \<and>
   (\<exists>c. build_claim lib
          \<lparr>status = ''error'', summary = [''error'' \<mapsto> PStr ''timeout''],
           findings = [], short_description = [], description = []\<rparr>
          ''ev-2''
          \<lparr>control_id = ''LA.04'', control_name = ''Admin access'', check_name = ''admin_access_count''\<rparr>
          [''P1''] = Inr c \<and>
        caveats c = [''Check failed with an error; evidence may be incomplete.''] \<and>
        recommendations c = [])"
    using pass_and_error_claim_lists [of
      "\<lparr>status = ''pass'', summary = [''admin_count'' \<mapsto> PInt 1, ''max_allowed'' \<mapsto> PInt 3],
        findings = [], short_description = [], description = []\<rparr>"
      lib "''ev-1''"
      "\<lparr>control_id = ''LA.04'', control_name = ''Admin access'', check_name = ''admin_access_count''\<rparr>"
      "[''P1'']"]
    pass_and_error_claim_lists [of
      "\<lparr>status = ''error'', summary = [''error'' \<mapsto> PStr ''timeout''],
        findings = [], short_description = [], description = []\<rparr>"
      lib "''ev-2''"
      "\<lparr>control_id = ''LA.04'', control_name = ''Admin access'', check_name = ''admin_access_count''\<rparr>"
      "[''P1'']"]
    by simp
qed

text \<open>
  C6. \<open>compute_trust_level\<close> returns VERIFIED iff \<open>c \<ge> 0.95\<close>, HIGH iff
  \<open>0.75 \<le> c < 0.95\<close>, MEDIUM iff \<open>0.55 \<le> c < 0.75\<close>, LOW iff \<open>0.30 \<le> c < 0.55\<close> and
  CRITICAL iff \<open>c < 0.30\<close>, in particular at the boundary values; and every envelope that
  \<open>build_trust_envelope\<close> returns carries the level of its own composite confidence.
\<close>

theorem trust_level_thresholds:
  "(compute_trust_level c = VERIFIED \<longleftrightarrow> 0.95 \<le> c) \<and>
   (compute_trust_level c = HIGH \<longleftrightarrow> 0.75 \<le> c \<and> c < 0.95) \<and>
   (compute_trust_level c = MEDIUM \<longleftrightarrow> 0.55 \<le> c \<and> c < 0.75) \<and>
   (compute_trust_level c = LOW \<longleftrightarrow> 0.30 \<le> c \<and> c < 0.55) \<and>
   (compute_trust_level c = CRITICAL \<longleftrightarrow> c < 0.30) \<and>
   compute_trust_level 0.0 = CRITICAL \<and>
   compute_trust_level 0.2999 = CRITICAL \<and>
   compute_trust_level 0.30 = LOW \<and>
   compute_trust_level 0.5499 = LOW \<and>
   compute_trust_level 0.55 = MEDIUM \<and>
   compute_trust_level 0.7499 = MEDIUM \<and>
   compute_trust_level 0.75 = HIGH \<and>
   compute_trust_level 0.9499 = HIGH \<and>
   compute_trust_level 0.95 = VERIFIED \<and>
   compute_trust_level 1.0 = VERIFIED \<and>
   (\<exists>env. build_trust_envelope lib sha ctrl pid claims tree window_start disclosure = Inr env \<and>
          trust_level env = compute_trust_level (composite_confidence env))"
proof -
  have bands:
    "(compute_trust_level c = VERIFIED \<longleftrightarrow> 0.95 \<le> c) \<and>
     (compute_trust_level c = HIGH \<longleftrightarrow> 0.75 \<le> c \<and> c < 0.95) \<and>
     (compute_trust_level c = MEDIUM \<longleftrightarrow> 0.55 \<le> c \<and> c < 0.75) \<and>
     (compute_trust_level c = LOW \<longleftrightarrow> 0.30 \<le> c \<and> c < 0.55) \<and>
     (compute_trust_level c = CRITICAL \<longleftrightarrow> c < 0.30)"
    by (auto simp: compute_trust_level_def)
  have points:
    "compute_trust_level 0.0 = CRITICAL \<and>
     compute_trust_level 0.2999 = CRITICAL \<and>
     compute_trust_level 0.30 = LOW \<and>
     compute_trust_level 0.5499 = LOW \<and>
     compute_trust_level 0.55 = MEDIUM \<and>
     compute_trust_level 0.7499 = MEDIUM \<and>
     compute_trust_level 0.75 = HIGH \<and>
     compute_trust_level 0.9499 = HIGH \<and>
     compute_trust_level 0.95 = VERIFIED \<and>
     compute_trust_level 1.0 = VERIFIED"
    by (simp add: compute_trust_level_def)
  obtain r where "root_of sha tree = Inr r"
    using root_of_total by blast
  then have "\<exists>env. build_trust_envelope lib sha ctrl pid claims tree window_start disclosure = Inr env \<and>
          trust_level env = compute_trust_level (composite_confidence env)"
    by (simp add: build_trust_envelope_def Let_def)
  with bands points show ?thesis by blast
qed

section \<open>checks.py: terminations_sla\<close>

text \<open>
  A user of the IdP. \<open>id\<close> and \<open>username\<close> are always present (the IdP contract);
  \<open>enabled\<close> and \<open>attributes\<close> may be absent (\<open>None\<close>), and the code reads them with
  \<open>u.get("enabled", True)\<close> and \<open>user.get("attributes") or {}\<close>. An attribute value is a
  list of strings, or a bare string, which the code accepts too.
\<close>

datatype attr_value = AttrList "string list" | AttrStr string

record user =
  user_id :: string
  username :: string
  enabled :: "bool option"
  createdTimestamp :: int
  attributes :: "(string \<rightharpoonup> attr_value) option"

text \<open>
  A \<open>datetime\<close>: its wall-clock fields as microseconds since the epoch, and its UTC offset
  in microseconds when it is aware. \<open>datetime.fromisoformat\<close> and \<open>isoformat\<close> are
  library functions, parameters here; \<open>fromisoformat\<close> returns \<open>None\<close> where the library
  raises \<open>ValueError\<close>.
\<close>

record datetime =
  wall :: int
  utcoffset :: "int option"

definition instant :: "datetime \<Rightarrow> int" where
  "instant d = wall d - (case utcoffset d of None \<Rightarrow> 0 | Some off \<Rightarrow> off)"

text \<open>\<open>(now - term_date).days\<close> for an aware \<open>now\<close> in UTC: the floor of the difference in days.\<close>

definition days_between :: "int \<Rightarrow> datetime \<Rightarrow> int" where
  "days_between now d = (now - instant d) div 86400000000"

text \<open>
  \<open>if term_date.tzinfo is None: term_date = term_date.replace(tzinfo=timezone.utc)\<close>.
\<close>

definition assume_utc :: "datetime \<Rightarrow> datetime" where
  "assume_utc d = (if utcoffset d = None then d\<lparr>utcoffset := Some 0\<rparr> else d)"

text \<open>\<open>not u.get("enabled", True)\<close>.\<close>

definition is_disabled :: "user \<Rightarrow> bool" where
  "is_disabled u = (\<not> (case enabled u of None \<Rightarrow> True | Some b \<Rightarrow> b))"

record sla_params =
  sla_days :: "int option"
  termination_attribute :: "string option"

text \<open>\<open>not raw_dates\<close>: an empty list and an empty string are falsy.\<close>

fun falsy :: "attr_value \<Rightarrow> bool" where
  "falsy (AttrList xs) = (xs = [])"
| "falsy (AttrStr s) = (s = [])"

text \<open>\<open>raw_dates[0] if isinstance(raw_dates, list) else raw_dates\<close>.\<close>

fun first_raw :: "attr_value \<Rightarrow> py_error + string" where
  "first_raw (AttrList xs) = py_index xs 0"
| "first_raw (AttrStr s) = Inr s"

text \<open>
  The \<open>for user in disabled\<close> loop, with the state \<open>(breaches, tracked)\<close>.
\<close>

fun sla_loop ::
  "(string \<Rightarrow> datetime option) \<Rightarrow> (datetime \<Rightarrow> string) \<Rightarrow> int \<Rightarrow> int \<Rightarrow> string \<Rightarrow>
   user list \<Rightarrow> pydict list \<times> int \<Rightarrow> py_error + pydict list \<times> int" where
  "sla_loop fromisoformat isoformat now sla term_attr [] acc = Inr acc"
| "sla_loop fromisoformat isoformat now sla term_attr (u # us) (breaches, tracked) =
     (let attrs = (case attributes u of None \<Rightarrow> Map.empty | Some a \<Rightarrow> a);
          raw_dates = (case attrs term_attr of None \<Rightarrow> AttrList [] | Some v \<Rightarrow> v)
      in if falsy raw_dates
         then sla_loop fromisoformat isoformat now sla term_attr us (breaches, tracked)
         else
           (case first_raw raw_dates of
              Inl e \<Rightarrow> Inl e
            | Inr raw \<Rightarrow>
                (case fromisoformat raw of
                   None \<Rightarrow> sla_loop fromisoformat isoformat now sla term_attr us (breaches, tracked + 1)
                 | Some parsed \<Rightarrow>
                     (let term_date = assume_utc parsed;
                          days_open = days_between now term_date
                      in if days_open > sla
                         then sla_loop fromisoformat isoformat now sla term_attr us
                                (breaches @
                                 [[''username'' \<mapsto> PStr (username u),
                                   ''user_id'' \<mapsto> PStr (user_id u),
                                   ''termination_requested'' \<mapsto> PStr (isoformat term_date),
                                   ''days_open'' \<mapsto> PInt days_open,
                                   ''days_overdue'' \<mapsto> PInt (days_open - sla)]],
                                 tracked + 1)
                         else sla_loop fromisoformat isoformat now sla term_attr us
                                (breaches, tracked + 1)))))"

text \<open>\<open>", ".join(names)\<close>.\<close>

fun join_comma :: "string list \<Rightarrow> string" where
  "join_comma [] = []"
| "join_comma [x] = x"
| "join_comma (x # y # ys) = x @ '', '' @ join_comma (y # ys)"

text \<open>\<open>max(...)\<close> of a non-empty sequence of integers.\<close>

fun max_list :: "int list \<Rightarrow> int" where
  "max_list [] = 0"
| "max_list [x] = x"
| "max_list (x # y # ys) = max x (max_list (y # ys))"

text \<open>
  \<open>terminations_sla\<close>. \<open>list_users\<close> is the outcome of \<open>kc.list_users()\<close>: the users, or
  the message of the exception it raised. \<open>now\<close> is \<open>datetime.now(timezone.utc)\<close> in
  microseconds.
\<close>

definition terminations_sla ::
  "(string \<Rightarrow> datetime option) \<Rightarrow> (datetime \<Rightarrow> string) \<Rightarrow> int \<Rightarrow>
   string + user list \<Rightarrow> sla_params \<Rightarrow> py_error + CheckResult" where
  "terminations_sla fromisoformat isoformat now list_users params =
     (let sla = (case sla_days params of None \<Rightarrow> 1 | Some d \<Rightarrow> d);
          term_attr = (case termination_attribute params of
                         None \<Rightarrow> ''terminationRequestDate'' | Some a \<Rightarrow> a)
      in case list_users of
           Inl msg \<Rightarrow>
             Inr \<lparr>status = ''error'', summary = [''error'' \<mapsto> PStr msg],
                  findings = [], short_description = [], description = []\<rparr>
         | Inr users \<Rightarrow>
             (let disabled = filter is_disabled users
              in case sla_loop fromisoformat isoformat now sla term_attr disabled ([], 0) of
                   Inl e \<Rightarrow> Inl e
                 | Inr (breaches, tracked) \<Rightarrow>
                     (let n = int (length breaches);
                          summ = [''sla_days'' \<mapsto> PInt sla,
                                  ''disabled_users_with_sla_tracking'' \<mapsto> PInt tracked,
                                  ''sla_breaches'' \<mapsto> PInt n]
                      in if n > 0
                         then
                           (let names = join_comma (map (\<lambda>b. py_str (dict_get b ''username'' PNone)) breaches);
                                worst = max_list (map (\<lambda>b. case dict_get b ''days_overdue'' PNone of
                                                             PInt k \<Rightarrow> k | _ \<Rightarrow> 0) breaches)
                            in Inr \<lparr>status = ''fail'', summary = summ, findings = breaches,
                                    short_description =
                                      ''LA.02: '' @ str_int n @ '' terminated account(s) breached the '' @
                                      str_int sla @ ''-day SLA (worst: '' @ str_int worst @ ''d overdue)'',
                                    description =
                                      str_int n @ '' account(s) were not disabled within the '' @
                                      str_int sla @ ''-day SLA after termination request.'' @
                                      [CHR 0x0A] @ ''Affected: '' @ names\<rparr>)
                         else Inr \<lparr>status = ''pass'', summary = summ, findings = [],
                                   short_description = [], description = []\<rparr>)))"


section \<open>Claims about the LA.02 check\<close>

text \<open>
  The string the check hands to \<open>fromisoformat\<close> for a user: the first element of the
  termination attribute, when the attribute is present and not empty.
\<close>

definition termination_raw :: "string \<Rightarrow> user \<Rightarrow> string option" where
  "termination_raw term_attr u =
     (case attributes u of
        None \<Rightarrow> None
      | Some attrs \<Rightarrow>
          (case attrs term_attr of
             None \<Rightarrow> None
           | Some (AttrList []) \<Rightarrow> None
           | Some (AttrList (x # xs)) \<Rightarrow> Some x
           | Some (AttrStr s) \<Rightarrow> (if s = [] then None else Some s)))"

definition has_termination_attr :: "string \<Rightarrow> user \<Rightarrow> bool" where
  "has_termination_attr term_attr u = (termination_raw term_attr u \<noteq> None)"

definition parses :: "(string \<Rightarrow> datetime option) \<Rightarrow> string \<Rightarrow> user \<Rightarrow> bool" where
  "parses fromisoformat term_attr u =
     (case termination_raw term_attr u of None \<Rightarrow> False | Some raw \<Rightarrow> fromisoformat raw \<noteq> None)"

definition breaches_sla :: "(string \<Rightarrow> datetime option) \<Rightarrow> int \<Rightarrow> int \<Rightarrow> string \<Rightarrow> user \<Rightarrow> bool" where
  "breaches_sla fromisoformat now sla term_attr u =
     (case termination_raw term_attr u of
        None \<Rightarrow> False
      | Some raw \<Rightarrow>
          (case fromisoformat raw of
             None \<Rightarrow> False
           | Some d \<Rightarrow> days_between now (assume_utc d) > sla))"

lemma sla_loop_skip:
  assumes "termination_raw term_attr u = None"
  shows "sla_loop fromisoformat isoformat now sla term_attr (u # us) (bs, tr) =
         sla_loop fromisoformat isoformat now sla term_attr us (bs, tr)"
  using assms
  by (auto simp: termination_raw_def split: option.splits attr_value.splits list.splits if_splits)

lemma sla_loop_unparsed:
  assumes "termination_raw term_attr u = Some raw" and "fromisoformat raw = None"
  shows "sla_loop fromisoformat isoformat now sla term_attr (u # us) (bs, tr) =
         sla_loop fromisoformat isoformat now sla term_attr us (bs, tr + 1)"
  using assms
  by (auto simp: termination_raw_def py_index_def
      split: option.splits attr_value.splits list.splits if_splits)

lemma sla_loop_parsed:
  assumes "termination_raw term_attr u = Some raw" and "fromisoformat raw = Some d"
  shows "sla_loop fromisoformat isoformat now sla term_attr (u # us) (bs, tr) =
         (if days_between now (assume_utc d) > sla
          then sla_loop fromisoformat isoformat now sla term_attr us
                 (bs @ [[''username'' \<mapsto> PStr (username u),
                         ''user_id'' \<mapsto> PStr (user_id u),
                         ''termination_requested'' \<mapsto> PStr (isoformat (assume_utc d)),
                         ''days_open'' \<mapsto> PInt (days_between now (assume_utc d)),
                         ''days_overdue'' \<mapsto> PInt (days_between now (assume_utc d) - sla)]],
                  tr + 1)
          else sla_loop fromisoformat isoformat now sla term_attr us (bs, tr + 1))"
  using assms
  by (auto simp: termination_raw_def py_index_def Let_def
      split: option.splits attr_value.splits list.splits if_splits)

lemma sla_loop_result:
  "\<exists>more. sla_loop fromisoformat isoformat now sla term_attr us (bs, tr) =
            Inr (bs @ more, tr + int (length (filter (has_termination_attr term_attr) us))) \<and>
          length more = length (filter (breaches_sla fromisoformat now sla term_attr) us)"
proof (induction us arbitrary: bs tr)
  case Nil
  then show ?case by simp
next
  case (Cons u us)
  show ?case
  proof (cases "termination_raw term_attr u")
    case None
    with Cons [of bs tr] show ?thesis
      by (simp add: sla_loop_skip has_termination_attr_def breaches_sla_def del: sla_loop.simps)
  next
    case (Some raw)
    show ?thesis
    proof (cases "fromisoformat raw")
      case None
      with Some Cons [of bs "tr + 1"] show ?thesis
        by (simp add: sla_loop_unparsed has_termination_attr_def breaches_sla_def add.assoc
            del: sla_loop.simps)
    next
      case (Some d)
      note parsed = this
      show ?thesis
      proof (cases "days_between now (assume_utc d) > sla")
        case False
        with \<open>termination_raw term_attr u = Some raw\<close> parsed Cons [of bs "tr + 1"]
        show ?thesis
          by (simp add: sla_loop_parsed has_termination_attr_def breaches_sla_def add.assoc
              del: sla_loop.simps)
      next
        case True
        let ?f = "[''username'' \<mapsto> PStr (username u),
                   ''user_id'' \<mapsto> PStr (user_id u),
                   ''termination_requested'' \<mapsto> PStr (isoformat (assume_utc d)),
                   ''days_open'' \<mapsto> PInt (days_between now (assume_utc d)),
                   ''days_overdue'' \<mapsto> PInt (days_between now (assume_utc d) - sla)]"
        from Cons [of "bs @ [?f]" "tr + 1"] obtain more where
          more: "sla_loop fromisoformat isoformat now sla term_attr us (bs @ [?f], tr + 1) =
              Inr ((bs @ [?f]) @ more,
                   tr + 1 + int (length (filter (has_termination_attr term_attr) us)))" and
          len: "length more = length (filter (breaches_sla fromisoformat now sla term_attr) us)"
          by blast
        have "sla_loop fromisoformat isoformat now sla term_attr (u # us) (bs, tr) =
            Inr (bs @ (?f # more),
                 tr + int (length (filter (has_termination_attr term_attr) (u # us))))"
          using \<open>termination_raw term_attr u = Some raw\<close> parsed True more
          by (simp add: sla_loop_parsed has_termination_attr_def add.assoc del: sla_loop.simps)
        moreover have "length (?f # more) =
            length (filter (breaches_sla fromisoformat now sla term_attr) (u # us))"
          using \<open>termination_raw term_attr u = Some raw\<close> parsed True len
          by (simp add: breaches_sla_def)
        ultimately show ?thesis by blast
      qed
    qed
  qed
qed


lemma filter_disabled:
  "filter P (filter is_disabled users) = filter (\<lambda>u. is_disabled u \<and> P u) users"
  by (induction users) auto

text \<open>
  C9, as stated, fails: a disabled user whose attribute value does not parse is counted in
  \<open>disabled_users_with_sla_tracking\<close>.
\<close>

theorem unparseable_date_is_tracked:
  "\<exists>res. terminations_sla
            (\<lambda>s. if s = ''2024-01-01'' then Some \<lparr>wall = 0, utcoffset = None\<rparr> else None)
            (\<lambda>d. ''iso'') 0
            (Inr [\<lparr>user_id = ''u1'', username = ''alice'', enabled = Some False,
                   createdTimestamp = 0,
                   attributes = Some [''terminationRequestDate'' \<mapsto> AttrList [''not-a-date'']]\<rparr>])
            \<lparr>sla_days = None, termination_attribute = None\<rparr> = Inr res \<and>
         summary res ''disabled_users_with_sla_tracking'' = Some (PInt 1) \<and>
         length (filter
           (\<lambda>u. is_disabled u \<and>
                parses (\<lambda>s. if s = ''2024-01-01'' then Some \<lparr>wall = 0, utcoffset = None\<rparr> else None)
                  ''terminationRequestDate'' u)
           [\<lparr>user_id = ''u1'', username = ''alice'', enabled = Some False,
             createdTimestamp = 0,
             attributes = Some [''terminationRequestDate'' \<mapsto> AttrList [''not-a-date'']]\<rparr>]) = 0"
  by (simp add: terminations_sla_def is_disabled_def parses_def termination_raw_def
      py_index_def Let_def)

text \<open>
  C9, amended. \<open>disabled_users_with_sla_tracking\<close> is the number of disabled users whose
  termination attribute is present and not empty, whether or not its value parses; a
  value that does not parse is skipped for the SLA comparison only. \<open>sla_breaches\<close> is the
  number of disabled users whose value parses with \<open>days_open > sla_days\<close>, and the status
  is fail iff there is such a user, and pass otherwise.
\<close>

theorem terminations_sla_counts:
  "\<exists>res. terminations_sla fromisoformat isoformat now (Inr users) params = Inr res \<and>
     (let sla = (case sla_days params of None \<Rightarrow> 1 | Some d \<Rightarrow> d);
          term_attr = (case termination_attribute params of
                         None \<Rightarrow> ''terminationRequestDate'' | Some a \<Rightarrow> a)
      in summary res ''disabled_users_with_sla_tracking'' =
           Some (PInt (int (length
             (filter (\<lambda>u. is_disabled u \<and> has_termination_attr term_attr u) users)))) \<and>
         summary res ''sla_breaches'' =
           Some (PInt (int (length
             (filter (\<lambda>u. is_disabled u \<and> breaches_sla fromisoformat now sla term_attr u) users)))) \<and>
         (status res = ''fail'' \<longleftrightarrow>
            (\<exists>u\<in>set users. is_disabled u \<and> breaches_sla fromisoformat now sla term_attr u)) \<and>
         (status res = ''fail'' \<or> status res = ''pass''))"
proof -
  define sla where "sla = (case sla_days params of None \<Rightarrow> 1 | Some d \<Rightarrow> d)"
  define term_attr where "term_attr = (case termination_attribute params of
                         None \<Rightarrow> ''terminationRequestDate'' | Some a \<Rightarrow> a)"
  let ?B = "\<lambda>u. is_disabled u \<and> breaches_sla fromisoformat now sla term_attr u"
  let ?T = "\<lambda>u. is_disabled u \<and> has_termination_attr term_attr u"
  from sla_loop_result [of fromisoformat isoformat now sla term_attr "filter is_disabled users" "[]" 0]
  obtain breaches where
    loop: "sla_loop fromisoformat isoformat now sla term_attr (filter is_disabled users) ([], 0) =
        Inr (breaches, int (length (filter ?T users)))" and
    len: "length breaches = length (filter ?B users)"
    by (auto simp: filter_disabled)
  have "(breaches = []) = (filter ?B users = [])"
    using len by (metis length_0_conv)
  then have ex: "(breaches \<noteq> []) = (\<exists>u\<in>set users. ?B u)"
    by (auto simp: filter_empty_conv)
  show ?thesis
  proof (cases "breaches = []")
    case True
    with loop len ex show ?thesis
      unfolding terminations_sla_def sla_def [symmetric] term_attr_def [symmetric]
      by (simp add: Let_def)
  next
    case False
    then have "0 < length breaches" by simp
    with False loop len ex show ?thesis
      unfolding terminations_sla_def sla_def [symmetric] term_attr_def [symmetric]
      by (simp add: Let_def)
  qed
qed


theorem terminations_sla_counts_witness:
  "\<exists>res. terminations_sla
            (\<lambda>s. if s = ''2024-01-01'' then Some \<lparr>wall = 0, utcoffset = None\<rparr> else None)
            (\<lambda>d. ''iso'') 691200000000
            (Inr [\<lparr>user_id = ''u1'', username = ''alice'', enabled = Some False,
                   createdTimestamp = 0,
                   attributes = Some [''terminationRequestDate'' \<mapsto> AttrList [''2024-01-01'']]\<rparr>,
                  \<lparr>user_id = ''u2'', username = ''bob'', enabled = Some False,
                   createdTimestamp = 0,
                   attributes = Some [''terminationRequestDate'' \<mapsto> AttrList [''not-a-date'']]\<rparr>])
            \<lparr>sla_days = Some 1, termination_attribute = None\<rparr> = Inr res \<and>
         summary res ''disabled_users_with_sla_tracking'' = Some (PInt 2) \<and>
         summary res ''sla_breaches'' = Some (PInt 1) \<and>
         status res = ''fail''"
proof -
  let ?parse = "\<lambda>s. if s = ''2024-01-01'' then Some \<lparr>wall = 0, utcoffset = None\<rparr> else None"
  let ?u1 = "\<lparr>user_id = ''u1'', username = ''alice'', enabled = Some False,
              createdTimestamp = 0,
              attributes = Some [''terminationRequestDate'' \<mapsto> AttrList [''2024-01-01'']]\<rparr>"
  let ?u2 = "\<lparr>user_id = ''u2'', username = ''bob'', enabled = Some False,
              createdTimestamp = 0,
              attributes = Some [''terminationRequestDate'' \<mapsto> AttrList [''not-a-date'']]\<rparr>"
  have d: "is_disabled ?u1" "is_disabled ?u2"
    by (simp_all add: is_disabled_def)
  have t: "has_termination_attr ''terminationRequestDate'' ?u1"
      "has_termination_attr ''terminationRequestDate'' ?u2"
    by (simp_all add: has_termination_attr_def termination_raw_def)
  have b1: "breaches_sla ?parse 691200000000 1 ''terminationRequestDate'' ?u1"
    by (simp add: breaches_sla_def termination_raw_def days_between_def assume_utc_def instant_def)
  have b2: "\<not> breaches_sla ?parse 691200000000 1 ''terminationRequestDate'' ?u2"
    by (simp add: breaches_sla_def termination_raw_def)
  from terminations_sla_counts [of ?parse "\<lambda>d. ''iso''" 691200000000 "[?u1, ?u2]"
      "\<lparr>sla_days = Some 1, termination_attribute = None\<rparr>"]
  show ?thesis
    by (simp add: d t b1 b2 Let_def) blast
qed


section \<open>Python's base64 module\<close>

text \<open>
  \<open>base64.urlsafe_b64encode\<close> and \<open>base64.urlsafe_b64decode\<close> are library functions.
  They are modelled from RFC 4648 and from CPython's \<open>binascii\<close>: the encoder emits four
  characters for every three bytes and pads the last group with \<open>=\<close>; the decoder is the
  non-strict one, which skips characters outside the alphabet, stops at a complete pad
  sequence and raises \<open>binascii.Error\<close> when the data characters do not fill the last
  group. Bit operations on bytes are written as arithmetic.
\<close>

definition b64_char :: "nat \<Rightarrow> char" where
  "b64_char k =
     (if k < 26 then char_of (65 + k)
      else if k < 52 then char_of (71 + k)
      else if k < 62 then char_of (k - 4)
      else if k = 62 then CHR ''+''
      else CHR ''/'')"

fun b2a_base64 :: "bytes \<Rightarrow> string" where
  "b2a_base64 [] = []"
| "b2a_base64 [a] =
     [b64_char (of_char a div 4), b64_char (of_char a mod 4 * 16), CHR ''='', CHR ''='']"
| "b2a_base64 [a, b] =
     [b64_char (of_char a div 4),
      b64_char (of_char a mod 4 * 16 + of_char b div 16),
      b64_char (of_char b mod 16 * 4), CHR ''='']"
| "b2a_base64 (a # b # c # rest) =
     [b64_char (of_char a div 4),
      b64_char (of_char a mod 4 * 16 + of_char b div 16),
      b64_char (of_char b mod 16 * 4 + of_char c div 64),
      b64_char (of_char c mod 64)] @ b2a_base64 rest"

definition urlsafe_encode_char :: "char \<Rightarrow> char" where
  "urlsafe_encode_char c = (if c = CHR ''+'' then CHR ''-'' else if c = CHR ''/'' then CHR ''_'' else c)"

definition urlsafe_b64encode :: "bytes \<Rightarrow> string" where
  "urlsafe_b64encode s = map urlsafe_encode_char (b2a_base64 s)"

definition b64_value :: "char \<Rightarrow> nat option" where
  "b64_value c =
     (let n = (of_char c :: nat)
      in if 65 \<le> n \<and> n \<le> 90 then Some (n - 65)
         else if 97 \<le> n \<and> n \<le> 122 then Some (n - 71)
         else if 48 \<le> n \<and> n \<le> 57 then Some (n + 4)
         else if c = CHR ''+'' then Some 62
         else if c = CHR ''/'' then Some 63
         else None)"

text \<open>
  The loop of \<open>a2b_base64\<close> over the input, with the state \<open>quad_pos\<close>, \<open>leftchar\<close>,
  \<open>pads\<close> and the bytes written so far.
\<close>

fun a2b_loop :: "string \<Rightarrow> nat \<Rightarrow> nat \<Rightarrow> nat \<Rightarrow> bytes \<Rightarrow> py_error + bytes" where
  "a2b_loop [] quad_pos leftchar pads out =
     (if quad_pos \<noteq> 0 then Inl Base64Error else Inr out)"
| "a2b_loop (c # cs) quad_pos leftchar pads out =
     (if c = CHR ''=''
      then (if quad_pos \<ge> 2 \<and> quad_pos + (pads + 1) \<ge> 4 then Inr out
            else a2b_loop cs quad_pos leftchar (if quad_pos \<ge> 2 then pads + 1 else pads) out)
      else
        (case b64_value c of
           None \<Rightarrow> a2b_loop cs quad_pos leftchar pads out
         | Some v \<Rightarrow>
             (if quad_pos = 0 then a2b_loop cs 1 v 0 out
              else if quad_pos = 1
                then a2b_loop cs 2 (v mod 16) 0 (out @ [char_of (leftchar * 4 + v div 16)])
              else if quad_pos = 2
                then a2b_loop cs 3 (v mod 4) 0 (out @ [char_of (leftchar * 16 + v div 4)])
              else a2b_loop cs 0 0 0 (out @ [char_of (leftchar * 64 + v)]))))"

definition a2b_base64 :: "string \<Rightarrow> py_error + bytes" where
  "a2b_base64 s = a2b_loop s 0 0 0 []"

definition urlsafe_decode_char :: "char \<Rightarrow> char" where
  "urlsafe_decode_char c = (if c = CHR ''-'' then CHR ''+'' else if c = CHR ''_'' then CHR ''/'' else c)"

definition urlsafe_b64decode :: "string \<Rightarrow> py_error + bytes" where
  "urlsafe_b64decode s = a2b_base64 (map urlsafe_decode_char s)"

section \<open>crypto/keys.py\<close>

text \<open>
  A \<open>KeyPair\<close> holds an Ed25519 private key and its public key. The two library calls
  \<open>self._private.sign(data)\<close> and \<open>self._public.verify(signature, data)\<close> are the fields of
  the record; \<open>public_verify\<close> is \<open>False\<close> where the library raises \<open>InvalidSignature\<close>.
  \<open>_canonical\<close> is the JSON encoder, a parameter as in the Merkle log.
\<close>

record KeyPair =
  private_sign :: "bytes \<Rightarrow> bytes"
  public_verify :: "bytes \<Rightarrow> bytes \<Rightarrow> bool"

definition KeyPair_sign :: "('payload \<Rightarrow> bytes) \<Rightarrow> KeyPair \<Rightarrow> 'payload \<Rightarrow> string" where
  "KeyPair_sign canonical kp payload =
     (let raw_sig = private_sign kp (canonical payload)
      in urlsafe_b64encode raw_sig)"

text \<open>
  \<open>verify\<close>: \<open>signature.encode("ascii")\<close> raises on a character outside ASCII, the decoder
  may raise, and the library raises on a signature that does not verify; every exception
  gives \<open>False\<close>.
\<close>

definition KeyPair_verify :: "('payload \<Rightarrow> bytes) \<Rightarrow> KeyPair \<Rightarrow> 'payload \<Rightarrow> string \<Rightarrow> bool" where
  "KeyPair_verify canonical kp payload signature =
     (if list_ex (\<lambda>c. (of_char c :: nat) \<ge> 128) signature then False
      else case urlsafe_b64decode (signature @ ''=='') of
             Inl e \<Rightarrow> False
           | Inr sig_bytes \<Rightarrow> public_verify kp sig_bytes (canonical payload))"


lemma b64_value_char: "k < 64 \<Longrightarrow> b64_value (b64_char k) = Some k"
  by (auto simp: b64_value_def b64_char_def Let_def)

lemma of_char_b64_char:
  "k < 64 \<Longrightarrow> (of_char (b64_char k) :: nat) \<in> {65..90} \<union> {97..122} \<union> {48..57} \<union> {43, 47}"
  by (auto simp: b64_char_def)

lemma b64_char_not_pad: "k < 64 \<Longrightarrow> b64_char k \<noteq> CHR ''=''"
proof
  assume "k < 64" and "b64_char k = CHR ''=''"
  from this(2) have "(of_char (b64_char k) :: nat) = 61" by simp
  with of_char_b64_char [OF \<open>k < 64\<close>] show False by simp
qed

lemma urlsafe_roundtrip_char:
  assumes "k < 64"
  shows "urlsafe_decode_char (urlsafe_encode_char (b64_char k)) = b64_char k"
proof -
  have "b64_char k \<noteq> CHR ''-''" "b64_char k \<noteq> CHR ''_''"
  proof -
    show "b64_char k \<noteq> CHR ''-''"
    proof
      assume "b64_char k = CHR ''-''"
      then have "(of_char (b64_char k) :: nat) = 45" by simp
      with of_char_b64_char [OF assms] show False by simp
    qed
    show "b64_char k \<noteq> CHR ''_''"
    proof
      assume "b64_char k = CHR ''_''"
      then have "(of_char (b64_char k) :: nat) = 95" by simp
      with of_char_b64_char [OF assms] show False by simp
    qed
  qed
  then show ?thesis
    by (simp add: urlsafe_decode_char_def urlsafe_encode_char_def)
qed

lemma a2b_loop_data:
  assumes "k < 64"
  shows "a2b_loop (b64_char k # cs) q l p out =
     (if q = 0 then a2b_loop cs 1 k 0 out
      else if q = 1 then a2b_loop cs 2 (k mod 16) 0 (out @ [char_of (l * 4 + k div 16)])
      else if q = 2 then a2b_loop cs 3 (k mod 4) 0 (out @ [char_of (l * 16 + k div 4)])
      else a2b_loop cs 0 0 0 (out @ [char_of (l * 64 + k)]))"
  using b64_value_char [OF assms] b64_char_not_pad [OF assms] by simp

lemma a2b_loop_pad:
  "a2b_loop (CHR ''='' # cs) q l p out =
     (if q \<ge> 2 \<and> q + (p + 1) \<ge> 4 then Inr out
      else a2b_loop cs q l (if q \<ge> 2 then p + 1 else p) out)"
  by simp

declare a2b_loop.simps(2) [simp del]



lemma div_pack: "r < n \<Longrightarrow> (q * n + r) div n = (q::nat)"
  by simp

lemma mod_pack: "r < n \<Longrightarrow> (q * n + r) mod n = (r::nat)"
  by simp

lemma byte_bounds:
  fixes x :: nat
  assumes "x < 256"
  shows "x div 4 < 64" and "x div 16 < 16" and "x div 64 < 4"
  using assms by (simp_all add: less_mult_imp_div_less)

lemma sextet_bounds:
  fixes x y z :: nat
  assumes "y < 256" and "z < 256"
  shows "x mod 4 * 16 + y div 16 < 64" and "y mod 16 * 4 + z div 64 < 64"
    and "x mod 4 * 16 < 64" and "y mod 16 * 4 < 64"
proof -
  have a: "x mod 4 < 4" and b: "y mod 16 < 16" by simp_all
  have c: "y div 16 < 16" and d: "z div 64 < 4"
    using assms by (simp_all add: less_mult_imp_div_less)
  show "x mod 4 * 16 + y div 16 < 64" using a c by linarith
  show "y mod 16 * 4 + z div 64 < 64" using b d by linarith
  show "x mod 4 * 16 < 64" using a by linarith
  show "y mod 16 * 4 < 64" using b by linarith
qed

lemma byte_rebuild:
  fixes x y z :: nat
  assumes "y < 256" and "z < 256"
  shows "x div 4 * 4 + (x mod 4 * 16 + y div 16) div 16 = x"
    and "(x mod 4 * 16 + y div 16) mod 16 = y div 16"
    and "y div 16 * 16 + (y mod 16 * 4 + z div 64) div 4 = y"
    and "(y mod 16 * 4 + z div 64) mod 4 = z div 64"
    and "z div 64 * 64 + z mod 64 = z"
    and "x div 4 * 4 + x mod 4 * 16 div 16 = x"
    and "y div 16 * 16 + y mod 16 * 4 div 4 = y"
proof -
  have c: "y div 16 < 16" and d: "z div 64 < 4"
    using assms by (simp_all add: less_mult_imp_div_less)
  show "x div 4 * 4 + (x mod 4 * 16 + y div 16) div 16 = x"
    by (simp only: div_pack [OF c] div_mult_mod_eq)
  show "(x mod 4 * 16 + y div 16) mod 16 = y div 16"
    by (simp only: mod_pack [OF c])
  show "y div 16 * 16 + (y mod 16 * 4 + z div 64) div 4 = y"
    by (simp only: div_pack [OF d] div_mult_mod_eq)
  show "(y mod 16 * 4 + z div 64) mod 4 = z div 64"
    by (simp only: mod_pack [OF d])
  show "z div 64 * 64 + z mod 64 = z"
    by (simp only: div_mult_mod_eq)
  show "x div 4 * 4 + x mod 4 * 16 div 16 = x"
    by simp
  show "y div 16 * 16 + y mod 16 * 4 div 4 = y"
    by simp
qed


lemma a2b_data:
  assumes "k < 64"
  shows "a2b_loop (b64_char k # cs) 0 l p out = a2b_loop cs 1 k 0 out"
    and "a2b_loop (b64_char k # cs) 1 l p out =
           a2b_loop cs 2 (k mod 16) 0 (out @ [char_of (l * 4 + k div 16)])"
    and "a2b_loop (b64_char k # cs) 2 l p out =
           a2b_loop cs 3 (k mod 4) 0 (out @ [char_of (l * 16 + k div 4)])"
    and "a2b_loop (b64_char k # cs) 3 l p out =
           a2b_loop cs 0 0 0 (out @ [char_of (l * 64 + k)])"
  by (simp_all add: a2b_loop_data [OF assms])

lemma a2b_loop_quad:
  "a2b_loop (b64_char (of_char a div 4) #
             b64_char (of_char a mod 4 * 16 + of_char b div 16) #
             b64_char (of_char b mod 16 * 4 + of_char c div 64) #
             b64_char (of_char c mod 64) # cs) 0 l p out =
   a2b_loop cs 0 0 0 (out @ [a, b, c])"
proof -
  define x y z where "x = (of_char a :: nat)" and "y = (of_char b :: nat)" and "z = (of_char c :: nat)"
  have lt: "x < 256" "y < 256" "z < 256" by (simp_all add: x_def y_def z_def)
  note k0 = byte_bounds(1) [OF lt(1)]
  note k1 = sextet_bounds(1) [OF lt(2) lt(3)]
  note k2 = sextet_bounds(2) [OF lt(2) lt(3)]
  have k3: "z mod 64 < 64" by simp
  note rb = byte_rebuild [OF lt(2) lt(3)]
  have chars: "char_of x = a" "char_of y = b" "char_of z = c"
    by (simp_all add: x_def y_def z_def)
  have "a2b_loop (b64_char (x div 4) # b64_char (x mod 4 * 16 + y div 16) #
                  b64_char (y mod 16 * 4 + z div 64) # b64_char (z mod 64) # cs) 0 l p out =
        a2b_loop cs 0 0 0 (out @ [a, b, c])"
    by (simp only: a2b_data(1) [OF k0] a2b_data(2) [OF k1] a2b_data(3) [OF k2]
        a2b_data(4) [OF k3] rb chars append_assoc append_Cons append_Nil)
  then show ?thesis
    by (simp only: x_def y_def z_def)
qed

lemma a2b_loop_one:
  "a2b_loop (b2a_base64 [a] @ tail) 0 l p out = Inr (out @ [a])"
proof -
  define x where "x = (of_char a :: nat)"
  have lt: "x < 256" by (simp add: x_def)
  note k0 = byte_bounds(1) [OF lt]
  note k1 = sextet_bounds(3) [OF lt lt]
  note rb = byte_rebuild [OF lt lt]
  have chars: "char_of x = a" by (simp add: x_def)
  have "a2b_loop (b64_char (x div 4) # b64_char (x mod 4 * 16) # CHR ''='' # CHR ''='' # tail)
          0 l p out =
        a2b_loop (CHR ''='' # CHR ''='' # tail) 2 (x mod 4 * 16 mod 16) 0 (out @ [a])"
    by (simp only: a2b_data(1) [OF k0] a2b_data(2) [OF k1] rb chars)
  also have "\<dots> = Inr (out @ [a])"
    by (simp add: a2b_loop_pad)
  finally show ?thesis
    by (simp add: x_def)
qed

lemma a2b_loop_two:
  "a2b_loop (b2a_base64 [a, b] @ tail) 0 l p out = Inr (out @ [a, b])"
proof -
  define x y where "x = (of_char a :: nat)" and "y = (of_char b :: nat)"
  have lt: "x < 256" "y < 256" by (simp_all add: x_def y_def)
  note k0 = byte_bounds(1) [OF lt(1)]
  note k1 = sextet_bounds(1) [OF lt(2) lt(2)]
  note k2 = sextet_bounds(4) [OF lt(2) lt(2)]
  note rb = byte_rebuild [OF lt(2) lt(2)]
  have chars: "char_of x = a" "char_of y = b" by (simp_all add: x_def y_def)
  have "a2b_loop (b64_char (x div 4) # b64_char (x mod 4 * 16 + y div 16) #
                  b64_char (y mod 16 * 4) # CHR ''='' # tail) 0 l p out =
        a2b_loop (CHR ''='' # tail) 3 (y mod 16 * 4 mod 4) 0 (out @ [a, b])"
    by (simp only: a2b_data(1) [OF k0] a2b_data(2) [OF k1] a2b_data(3) [OF k2] rb chars
        append_assoc append_Cons append_Nil)
  also have "\<dots> = Inr (out @ [a, b])"
    by (simp add: a2b_loop_pad)
  finally show ?thesis
    by (simp add: x_def y_def)
qed


text \<open>\<open>s.rstrip("=")\<close>: the string without its trailing pad characters.\<close>

definition rstrip_pad :: "string \<Rightarrow> string" where
  "rstrip_pad s = rev (dropWhile (\<lambda>c. c = CHR ''='') (rev s))"

lemma rstrip_pad_append:
  assumes "ys \<noteq> []" and "last ys \<noteq> CHR ''=''"
  shows "rstrip_pad (ys @ xs) = ys @ rstrip_pad xs"
proof -
  let ?P = "\<lambda>c. c = CHR ''=''"
  have keep: "dropWhile ?P (rev ys) = rev ys"
    using assms by (cases "rev ys") (auto simp: last_rev [symmetric] hd_rev)
  show ?thesis
  proof (cases "\<forall>c\<in>set (rev xs). ?P c")
    case True
    then have "dropWhile ?P (rev xs) = []" by simp
    with True keep show ?thesis
      by (simp add: rstrip_pad_def dropWhile_append)
  next
    case False
    then show ?thesis
      by (auto simp: rstrip_pad_def dropWhile_append)
  qed
qed

text \<open>Decoding an encoded string followed by \<open>==\<close>, with or without its own padding.\<close>

lemma a2b_loop_encoded:
  "a2b_loop (b2a_base64 bs @ ''=='') 0 l p out = Inr (out @ bs)"
proof (induction bs arbitrary: l p out rule: b2a_base64.induct)
  case 1
  show ?case by (simp add: a2b_loop_pad)
next
  case (2 a)
  show ?case by (rule a2b_loop_one)
next
  case (3 a b)
  show ?case by (rule a2b_loop_two)
next
  case (4 a b c rest)
  show ?case
    using "4.IH" [of 0 0 "out @ [a, b, c]"] by (simp add: a2b_loop_quad)
qed

lemma a2b_loop_stripped:
  "a2b_loop (rstrip_pad (b2a_base64 bs) @ ''=='') 0 l p out = Inr (out @ bs)"
proof (induction bs arbitrary: l p out rule: b2a_base64.induct)
  case 1
  show ?case by (simp add: a2b_loop_pad rstrip_pad_def)
next
  case (2 a)
  have "(of_char a :: nat) mod 4 < 4" by simp
  then have k: "(of_char a :: nat) mod 4 * 16 < 64" by linarith
  have "rstrip_pad (b2a_base64 [a]) @ ''=='' = b2a_base64 [a] @ []"
    using b64_char_not_pad [OF k] by (simp add: rstrip_pad_def)
  then show ?case by (simp only: a2b_loop_one)
next
  case (3 a b)
  have "(of_char b :: nat) mod 16 < 16" by simp
  then have k: "(of_char b :: nat) mod 16 * 4 < 64" by linarith
  have "rstrip_pad (b2a_base64 [a, b]) @ ''=='' = b2a_base64 [a, b] @ ''=''"
    using b64_char_not_pad [OF k] by (simp add: rstrip_pad_def)
  then show ?case by (simp only: a2b_loop_two)
next
  case (4 a b c rest)
  let ?quad = "[b64_char (of_char a div 4),
                b64_char (of_char a mod 4 * 16 + of_char b div 16),
                b64_char (of_char b mod 16 * 4 + of_char c div 64),
                b64_char (of_char c mod 64)]"
  have k: "(of_char c :: nat) mod 64 < 64" by simp
  have "rstrip_pad (?quad @ b2a_base64 rest) = ?quad @ rstrip_pad (b2a_base64 rest)"
    using b64_char_not_pad [OF k] by (intro rstrip_pad_append) simp_all
  then have "rstrip_pad (b2a_base64 (a # b # c # rest)) = ?quad @ rstrip_pad (b2a_base64 rest)"
    by simp
  then show ?case
    using "4.IH" [of 0 0 "out @ [a, b, c]"] by (simp add: a2b_loop_quad)
qed


lemma b2a_base64_chars:
  "c \<in> set (b2a_base64 bs) \<Longrightarrow> c = CHR ''='' \<or> (\<exists>k<64. c = b64_char k)"
proof (induction bs rule: b2a_base64.induct)
  case 1
  then show ?case by simp
next
  case (2 a)
  have k0: "(of_char a :: nat) div 4 < 64" by (rule byte_bounds(1)) simp
  have "(of_char a :: nat) mod 4 < 4" by simp
  then have k1: "(of_char a :: nat) mod 4 * 16 < 64" by linarith
  from 2 have "c \<in> {b64_char (of_char a div 4), b64_char (of_char a mod 4 * 16), CHR ''=''}"
    by auto
  with k0 k1 show ?case by blast
next
  case (3 a b)
  have k0: "(of_char a :: nat) div 4 < 64" by (rule byte_bounds(1)) simp
  have k1: "(of_char a :: nat) mod 4 * 16 + of_char b div 16 < 64"
    by (rule sextet_bounds(1) [where z = 0]) simp_all
  have "(of_char b :: nat) mod 16 < 16" by simp
  then have k2: "(of_char b :: nat) mod 16 * 4 < 64" by linarith
  from 3 have "c \<in> {b64_char (of_char a div 4),
      b64_char (of_char a mod 4 * 16 + of_char b div 16),
      b64_char (of_char b mod 16 * 4), CHR ''=''}"
    by auto
  with k0 k1 k2 show ?case by blast
next
  case (4 a b c' rest)
  have k0: "(of_char a :: nat) div 4 < 64" by (rule byte_bounds(1)) simp
  have k1: "(of_char a :: nat) mod 4 * 16 + of_char b div 16 < 64"
    by (rule sextet_bounds(1) [where z = 0]) simp_all
  have k2: "(of_char b :: nat) mod 16 * 4 + of_char c' div 64 < 64"
    by (rule sextet_bounds(2)) simp_all
  have k3: "(of_char c' :: nat) mod 64 < 64" by simp
  from "4.prems" have "c \<in> {b64_char (of_char a div 4),
      b64_char (of_char a mod 4 * 16 + of_char b div 16),
      b64_char (of_char b mod 16 * 4 + of_char c' div 64),
      b64_char (of_char c' mod 64)} \<or> c \<in> set (b2a_base64 rest)"
    by auto
  with k0 k1 k2 k3 "4.IH" show ?case by blast
qed

lemma urlsafe_roundtrip:
  assumes "c \<in> set (b2a_base64 bs)"
  shows "urlsafe_decode_char (urlsafe_encode_char c) = c"
  using b2a_base64_chars [OF assms]
proof
  assume "c = CHR ''=''"
  then show ?thesis
    by (simp add: urlsafe_decode_char_def urlsafe_encode_char_def)
next
  assume "\<exists>k<64. c = b64_char k"
  then show ?thesis
    using urlsafe_roundtrip_char by blast
qed

lemma urlsafe_encode_pad: "(urlsafe_encode_char c = CHR ''='') = (c = CHR ''='')"
  by (simp add: urlsafe_encode_char_def)

lemma rstrip_pad_encode:
  "rstrip_pad (map urlsafe_encode_char s) = map urlsafe_encode_char (rstrip_pad s)"
  by (simp add: rstrip_pad_def rev_map dropWhile_map comp_def urlsafe_encode_pad)

lemma set_rstrip_pad: "set (rstrip_pad s) \<subseteq> set s"
  using set_dropWhileD [of _ "\<lambda>c. c = CHR ''=''" "rev s"] by (auto simp: rstrip_pad_def)

lemma decode_translate_encoded:
  "map urlsafe_decode_char (urlsafe_b64encode bs) = b2a_base64 bs"
  by (simp add: urlsafe_b64encode_def urlsafe_roundtrip map_idI)

lemma decode_translate_stripped:
  "map urlsafe_decode_char (rstrip_pad (urlsafe_b64encode bs)) = rstrip_pad (b2a_base64 bs)"
proof -
  have "\<And>c. c \<in> set (rstrip_pad (b2a_base64 bs)) \<Longrightarrow>
      urlsafe_decode_char (urlsafe_encode_char c) = c"
    using set_rstrip_pad urlsafe_roundtrip by blast
  then show ?thesis
    by (simp add: urlsafe_b64encode_def rstrip_pad_encode map_idI)
qed

lemma urlsafe_decode_pad: "map urlsafe_decode_char ''=='' = ''==''"
  by (simp add: urlsafe_decode_char_def)

lemma urlsafe_b64decode_encoded:
  "urlsafe_b64decode (urlsafe_b64encode bs @ ''=='') = Inr bs"
  using a2b_loop_encoded [of bs 0 0 "[]"]
  by (simp only: urlsafe_b64decode_def a2b_base64_def map_append decode_translate_encoded
      urlsafe_decode_pad append_Nil)

lemma urlsafe_b64decode_stripped:
  "urlsafe_b64decode (rstrip_pad (urlsafe_b64encode bs) @ ''=='') = Inr bs"
  using a2b_loop_stripped [of bs 0 0 "[]"]
  by (simp only: urlsafe_b64decode_def a2b_base64_def map_append decode_translate_stripped
      urlsafe_decode_pad append_Nil)

lemma urlsafe_b64encode_ascii:
  assumes "c \<in> set (urlsafe_b64encode bs)"
  shows "(of_char c :: nat) < 128"
proof -
  from assms obtain d where d: "d \<in> set (b2a_base64 bs)" and c: "c = urlsafe_encode_char d"
    by (auto simp: urlsafe_b64encode_def)
  from b2a_base64_chars [OF d] show ?thesis
  proof
    assume "d = CHR ''=''"
    then show ?thesis by (simp add: c urlsafe_encode_char_def)
  next
    assume "\<exists>k<64. d = b64_char k"
    then obtain k where k: "k < 64" and dk: "d = b64_char k" by blast
    from of_char_b64_char [OF k] have "(of_char d :: nat) < 128"
      by (auto simp: dk)
    then show ?thesis
      by (simp add: c urlsafe_encode_char_def)
  qed
qed

lemma no_non_ascii:
  "set s \<subseteq> set (urlsafe_b64encode bs) \<Longrightarrow> \<not> list_ex (\<lambda>c. (of_char c :: nat) \<ge> 128) s"
  using urlsafe_b64encode_ascii by (fastforce simp: list_ex_iff)


lemma drop_quad:
  "drop (4 * Suc k + 2) (w # x # y # z # rest) = drop (4 * k + 2) rest"
proof -
  have e: "4 * Suc k + 2 = Suc (Suc (Suc (Suc (4 * k + 2))))" by simp
  show ?thesis
    unfolding e by (simp only: drop_Suc_Cons)
qed

lemma b2a_base64_one_left:
  "length bs mod 3 = 1 \<Longrightarrow>
   length (b2a_base64 bs) = 4 * (length bs div 3) + 4 \<and>
   drop (4 * (length bs div 3) + 2) (b2a_base64 bs) = ''==''"
proof (induction bs rule: b2a_base64.induct)
  case 1
  then show ?case by simp
next
  case (2 a)
  show ?case by simp
next
  case (3 a b)
  then show ?case by simp
next
  case (4 a b c rest)
  from "4.prems" have r: "length rest mod 3 = 1" by simp
  have d: "length (a # b # c # rest) div 3 = Suc (length rest div 3)" by simp
  have "length (b2a_base64 (a # b # c # rest)) = 4 * Suc (length rest div 3) + 4"
    using "4.IH" [OF r] by simp
  moreover have "drop (4 * Suc (length rest div 3) + 2) (b2a_base64 (a # b # c # rest)) = ''==''"
    using "4.IH" [OF r] by (simp only: b2a_base64.simps append_Cons append_Nil drop_quad)
  ultimately show ?case
    by (simp only: d)
qed

section \<open>Claims about the signer\<close>

text \<open>
  C7 holds of the documentation, not of the code: the module docstring of
  \<open>crypto/keys.py\<close> says "base64url (URL-safe, no padding)", and \<open>sign\<close> returns the output
  of \<open>urlsafe_b64encode\<close> unchanged. For the 64 bytes of an Ed25519 signature that output
  has 88 characters and ends in \<open>==\<close>.
\<close>

theorem sign_output_is_padded:
  assumes "length (private_sign kp (canonical payload)) = 64"
  shows "KeyPair_sign canonical kp payload =
           urlsafe_b64encode (private_sign kp (canonical payload)) \<and>
         length (KeyPair_sign canonical kp payload) = 88 \<and>
         drop 86 (KeyPair_sign canonical kp payload) = ''==''"
proof -
  let ?sig = "private_sign kp (canonical payload)"
  have m: "length ?sig mod 3 = 1" and d: "length ?sig div 3 = 21"
    using assms by simp_all
  from b2a_base64_one_left [OF m] have
    len: "length (b2a_base64 ?sig) = 88" and tl: "drop 86 (b2a_base64 ?sig) = ''==''"
    by (simp_all add: d)
  have "drop 86 (urlsafe_b64encode ?sig) = map urlsafe_encode_char (drop 86 (b2a_base64 ?sig))"
    by (simp add: urlsafe_b64encode_def drop_map)
  with len tl show ?thesis
    by (simp add: KeyPair_sign_def urlsafe_b64encode_def urlsafe_encode_char_def)
qed

theorem sign_output_is_padded_witness:
  "length (KeyPair_sign (\<lambda>x. x)
             \<lparr>private_sign = (\<lambda>m. replicate 64 (CHR 0x00)), public_verify = (\<lambda>s m. True)\<rparr>
             ''{}'') = 88 \<and>
   drop 86 (KeyPair_sign (\<lambda>x. x)
             \<lparr>private_sign = (\<lambda>m. replicate 64 (CHR 0x00)), public_verify = (\<lambda>s m. True)\<rparr>
             ''{}'') = ''==''"
  using sign_output_is_padded [of
      "\<lparr>private_sign = (\<lambda>m. replicate 64 (CHR 0x00)), public_verify = (\<lambda>s m. True)\<rparr>"
      "\<lambda>x. x" "''{}''"]
  by (simp add: KeyPair_sign_def)

text \<open>
  C10. \<open>verify\<close> gives the same answer on a base64url string with its padding and with
  the padding stripped, namely what the library's verification says of the decoded bytes;
  so the padded output of \<open>sign\<close> and its stripped form are both accepted when the key
  pair's own signatures verify.
\<close>

theorem verify_ignores_padding:
  "KeyPair_verify canonical kp payload (urlsafe_b64encode bs) =
     public_verify kp bs (canonical payload) \<and>
   KeyPair_verify canonical kp payload (rstrip_pad (urlsafe_b64encode bs)) =
     KeyPair_verify canonical kp payload (urlsafe_b64encode bs) \<and>
   ((\<forall>m. public_verify kp (private_sign kp m) m) \<longrightarrow>
      KeyPair_verify canonical kp payload (KeyPair_sign canonical kp payload) \<and>
      KeyPair_verify canonical kp payload (rstrip_pad (KeyPair_sign canonical kp payload)))"
proof -
  have padded: "KeyPair_verify canonical kp payload (urlsafe_b64encode bs) =
      public_verify kp bs (canonical payload)" for bs
    using no_non_ascii [of "urlsafe_b64encode bs" bs]
    by (simp add: KeyPair_verify_def urlsafe_b64decode_encoded)
  have stripped: "KeyPair_verify canonical kp payload (rstrip_pad (urlsafe_b64encode bs)) =
      public_verify kp bs (canonical payload)" for bs
    using no_non_ascii [OF set_rstrip_pad, of bs]
    by (simp add: KeyPair_verify_def urlsafe_b64decode_stripped)
  show ?thesis
    by (simp add: padded stripped KeyPair_sign_def)
qed

theorem verify_ignores_padding_witness:
  "KeyPair_verify (\<lambda>x. x) \<lparr>private_sign = (\<lambda>m. m), public_verify = (\<lambda>s m. s = m)\<rparr> ''{}''
     (KeyPair_sign (\<lambda>x. x) \<lparr>private_sign = (\<lambda>m. m), public_verify = (\<lambda>s m. s = m)\<rparr> ''{}'') \<and>
   KeyPair_verify (\<lambda>x. x) \<lparr>private_sign = (\<lambda>m. m), public_verify = (\<lambda>s m. s = m)\<rparr> ''{}''
     (rstrip_pad
       (KeyPair_sign (\<lambda>x. x) \<lparr>private_sign = (\<lambda>m. m), public_verify = (\<lambda>s m. s = m)\<rparr> ''{}''))"
  using verify_ignores_padding [of "\<lambda>x. x"
      "\<lparr>private_sign = (\<lambda>m. m), public_verify = (\<lambda>s m. s = m)\<rparr>" "''{}''" "''{}''"]
  by simp


end
